theory Spec2Isabelle
  imports Main "HOL-Library.Sublist"
begin

section \<open>Go strings and the standard-library calls of \<^verbatim>\<open>stmt_document.go\<close>\<close>

text \<open>
  A Go string is modelled as the list of its bytes (\<^typ>\<open>string\<close>). Every character the
  statement code inspects (the sigils \<^verbatim>\<open>$ @ :\<close>, digits, ASCII white space, comma, double
  quote, backslash) is a single byte that never occurs inside a multi-byte UTF-8 sequence, so
  matching and replacing on bytes agrees with Go; the trimming functions and the
  case-insensitive words, which see runes beyond ASCII, are given the encodings of those
  runes.
\<close>

fun starts_with :: "(char \<Rightarrow> bool) \<Rightarrow> string \<Rightarrow> bool" where
  "starts_with P [] = False"
| "starts_with P (c # cs) = P c"

text \<open>\<^verbatim>\<open>strings.HasPrefix\<close>, \<^verbatim>\<open>strings.HasSuffix\<close>, \<^verbatim>\<open>strings.Index(s, sub) >= 0\<close>.\<close>

fun has_prefix :: "string \<Rightarrow> string \<Rightarrow> bool" where
  "has_prefix s [] = True"
| "has_prefix [] (p # ps) = False"
| "has_prefix (c # cs) (p # ps) = (c = p \<and> has_prefix cs ps)"

definition has_suffix :: "string \<Rightarrow> string \<Rightarrow> bool" where
  "has_suffix s p = has_prefix (rev s) (rev p)"

fun str_contains :: "string \<Rightarrow> string \<Rightarrow> bool" where
  "str_contains [] sub = (sub = [])"
| "str_contains (c # cs) sub = (has_prefix (c # cs) sub \<or> str_contains cs sub)"

text \<open>
  \<^verbatim>\<open>strings.ReplaceAll(s, old, new)\<close>: the non-overlapping occurrences of \<open>old\<close> are
  replaced from left to right. For an empty \<open>old\<close> Go inserts \<open>new\<close> before every
  character and at the end; \<open>parse\<close> never passes an empty \<open>old\<close>.
\<close>

fun replace_all :: "string \<Rightarrow> string \<Rightarrow> string \<Rightarrow> string" where
  "replace_all [] old new = (if old = [] then new else [])"
| "replace_all (c # cs) old new =
     (if old = [] then new @ c # replace_all cs old new
      else if has_prefix (c # cs) old
        then new @ replace_all (drop (length old) (c # cs)) old new
      else c # replace_all cs old new)"

text \<open>The character classes of the regular expressions (RE2: \<^verbatim>\<open>\d\<close> and \<^verbatim>\<open>\s\<close> are ASCII).\<close>

definition is_sigil :: "char \<Rightarrow> bool" where
  "is_sigil c = (c = CHR ''$'' \<or> c = CHR ''@'' \<or> c = CHR '':'')"

definition is_digit :: "char \<Rightarrow> bool" where
  "is_digit c = (c \<in> set ''0123456789'')"

definition is_re_space :: "char \<Rightarrow> bool" where
  "is_re_space c = (c = CHR 0x09 \<or> c = CHR 0x0A \<or> c = CHR 0x0C \<or> c = CHR 0x0D \<or> c = CHR '' '')"

definition is_comma :: "char \<Rightarrow> bool" where
  "is_comma c = (c = CHR '','')"

text \<open>
  The tail \<^verbatim>\<open>\s*,?\<close> that ends each of the five value patterns, matched at the start of a
  string: the matched text and the text left after it. Both quantifiers are greedy and the
  tail cannot fail, so it takes every white-space character and then the comma when there
  is one.
\<close>

definition match_sep :: "string \<Rightarrow> string \<times> string" where
  "match_sep r =
     (let ws = takeWhile is_re_space r;
          r2 = dropWhile is_re_space r
      in if starts_with is_comma r2 then (ws @ '','', tl r2) else (ws, r2))"

text \<open>
  \<^verbatim>\<open>reValPlaceholder = (?i)[$@:](\d+)\s*,?\<close> matched at the start of a string: the whole
  match \<^verbatim>\<open>match[0]\<close>, the digits \<^verbatim>\<open>match[1]\<close> and the text left after the match. The
  digits are taken greedily, since nothing after them in the pattern can take a digit.
\<close>

fun match_placeholder :: "string \<Rightarrow> (string \<times> string \<times> string) option" where
  "match_placeholder [] = None"
| "match_placeholder (c # cs) =
     (if is_sigil c \<and> starts_with is_digit cs then
        (case match_sep (dropWhile is_digit cs) of
           (sep, r) \<Rightarrow> Some (c # takeWhile is_digit cs @ sep, takeWhile is_digit cs, r))
      else None)"

lemma match_sep_length: "match_sep r = (sep, r') \<Longrightarrow> length r' \<le> length r"
proof -
  assume a: "match_sep r = (sep, r')"
  have "length (dropWhile is_re_space r) \<le> length r"
    by (rule length_dropWhile_le)
  moreover have "length (tl (dropWhile is_re_space r)) \<le> length (dropWhile is_re_space r)"
    by simp
  ultimately show ?thesis
    using a by (auto simp: match_sep_def Let_def split: if_splits)
qed

lemma match_placeholder_length:
  "match_placeholder s = Some (m, ds, r) \<Longrightarrow> length r < length s"
proof (cases s)
  case Nil
  assume "match_placeholder s = Some (m, ds, r)"
  with Nil show ?thesis by simp
next
  case (Cons c cs)
  assume a: "match_placeholder s = Some (m, ds, r)"
  obtain sep where sep: "match_sep (dropWhile is_digit cs) = (sep, r)"
    using a Cons by (auto split: if_splits prod.splits)
  have "length r \<le> length (dropWhile is_digit cs)"
    using sep by (rule match_sep_length)
  also have "\<dots> \<le> length cs"
    by (rule length_dropWhile_le)
  finally show ?thesis
    using Cons by simp
qed

text \<open>
  \<^verbatim>\<open>reValPlaceholder.FindAllStringSubmatch(s, -1)\<close>: the successive non-overlapping matches,
  leftmost first, each as (\<^verbatim>\<open>match[0]\<close>, \<^verbatim>\<open>match[1]\<close>).
\<close>

function find_all_placeholders :: "string \<Rightarrow> (string \<times> string) list" where
  "find_all_placeholders [] = []"
| "find_all_placeholders (c # cs) =
     (case match_placeholder (c # cs) of
        Some (m, ds, r) \<Rightarrow> (m, ds) # find_all_placeholders r
      | None \<Rightarrow> find_all_placeholders cs)"
  by pat_completeness auto
termination
proof (relation "measure length")
  show "wf (measure length)" by simp
next
  fix c :: char and cs :: string and x2 m y ds r
  assume "match_placeholder (c # cs) = Some x2" "(m, y) = x2" "(ds, r) = y"
  then have "match_placeholder (c # cs) = Some (m, ds, r)" by simp
  then show "(r, c # cs) \<in> measure length"
    using match_placeholder_length by fastforce
next
  fix c :: char and cs :: string
  show "(cs, c # cs) \<in> measure length" by simp
qed

text \<open>
  \<^verbatim>\<open>strconv.Atoi\<close> on a 64-bit platform: an optional sign and decimal digits; the second
  component is \<open>False\<close> when Go returns an error. A value out of range is an error and the
  returned number is the nearest bound.
\<close>

definition digit_val :: "char \<Rightarrow> nat" where
  "digit_val c = of_char c - of_char CHR ''0''"

definition digits_val :: "string \<Rightarrow> nat" where
  "digits_val ds = foldl (\<lambda>acc c. 10 * acc + digit_val c) 0 ds"

definition max_int64 :: int where
  "max_int64 = 9223372036854775807"

definition atoi_digits :: "bool \<Rightarrow> string \<Rightarrow> int \<times> bool" where
  "atoi_digits neg ds =
     (if ds = [] \<or> \<not> list_all is_digit ds then (0, False)
      else let n = int (digits_val ds) in
        if neg then (if n \<le> max_int64 + 1 then (- n, True) else (- max_int64 - 1, False))
        else (if n \<le> max_int64 then (n, True) else (max_int64, False)))"

fun atoi :: "string \<Rightarrow> int \<times> bool" where
  "atoi [] = (0, False)"
| "atoi (c # cs) =
     (if c = CHR ''+'' then atoi_digits False cs
      else if c = CHR ''-'' then atoi_digits True cs
      else atoi_digits False (c # cs))"

text \<open>
  \<^verbatim>\<open>strings.TrimSpace\<close> and \<^verbatim>\<open>strings.TrimFunc\<close> work on runes, so they are modelled on the
  UTF-8 encodings of the runes they cut.
\<close>

text \<open>
  \<^verbatim>\<open>unicode.IsSpace\<close>, on the UTF-8 encoding: the six ASCII white-space characters, U+0085,
  U+00A0, U+1680, U+2000 to U+200A, U+2028, U+2029, U+202F, U+205F and U+3000.
\<close>

definition space_runes :: "string list" where
  "space_runes =
     map (\<lambda>c. [c]) [CHR 0x09, CHR 0x0A, CHR 0x0B, CHR 0x0C, CHR 0x0D, CHR 0x20]
     @ [[CHR 0xC2, CHR 0x85], [CHR 0xC2, CHR 0xA0], [CHR 0xE1, CHR 0x9A, CHR 0x80]]
     @ map (\<lambda>c. [CHR 0xE2, CHR 0x80, c])
         [CHR 0x80, CHR 0x81, CHR 0x82, CHR 0x83, CHR 0x84, CHR 0x85, CHR 0x86, CHR 0x87,
          CHR 0x88, CHR 0x89, CHR 0x8A, CHR 0xA8, CHR 0xA9, CHR 0xAF]
     @ [[CHR 0xE2, CHR 0x81, CHR 0x9F], [CHR 0xE3, CHR 0x80, CHR 0x80]]"

text \<open>
  The runes that the lexer trims from a token: \<^verbatim>\<open>_isSpace(r) || r == ','\<close>, where
  \<^verbatim>\<open>_isSpace\<close> lists the ASCII white space, U+0085, U+00A0 and the equals sign.
\<close>

definition value_trim_runes :: "string list" where
  "value_trim_runes =
     map (\<lambda>c. [c]) [CHR 0x09, CHR 0x0A, CHR 0x0B, CHR 0x0C, CHR 0x0D, CHR 0x20, CHR ''='', CHR '','']
     @ [[CHR 0xC2, CHR 0x85], [CHR 0xC2, CHR 0xA0]]"

text \<open>
  \<^verbatim>\<open>strings.TrimFunc\<close> for a predicate given by the encodings of the runes it accepts: runes
  are cut from the front, and from the back, as long as they are among \<open>runes\<close>.
\<close>

fun strip_rune :: "string list \<Rightarrow> string \<Rightarrow> string option" where
  "strip_rune [] s = None"
| "strip_rune (r # rs) s =
     (if r \<noteq> [] \<and> has_prefix s r then Some (drop (length r) s) else strip_rune rs s)"

lemma strip_rune_length: "strip_rune rs s = Some s' \<Longrightarrow> length s' < length s"
proof (induction rs)
  case Nil
  then show ?case by simp
next
  case (Cons r rs)
  show ?case
  proof (cases "r \<noteq> [] \<and> has_prefix s r")
    case True
    then have "s \<noteq> []" by (cases s; cases r) auto
    with True Cons.prems show ?thesis by (cases r) auto
  next
    case False
    with Cons show ?thesis by auto
  qed
qed

function trim_left :: "string list \<Rightarrow> string \<Rightarrow> string" where
  "trim_left runes s = (case strip_rune runes s of None \<Rightarrow> s | Some s' \<Rightarrow> trim_left runes s')"
  by pat_completeness auto
termination
  by (relation "measure (\<lambda>(runes, s). length s)") (auto dest: strip_rune_length)

declare trim_left.simps [simp del]

definition trim_runes :: "string list \<Rightarrow> string \<Rightarrow> string" where
  "trim_runes runes s = rev (trim_left (map rev runes) (rev (trim_left runes s)))"

definition trim_space :: "string \<Rightarrow> string" where
  "trim_space s = trim_runes space_runes s"

definition trim_value :: "string \<Rightarrow> string" where
  "trim_value s = trim_runes value_trim_runes s"

lemma trim_left_length: "length (trim_left runes s) \<le> length s"
proof (induction runes s rule: trim_left.induct)
  case (1 runes s)
  show ?case
  proof (cases "strip_rune runes s")
    case None
    then show ?thesis by (simp add: trim_left.simps)
  next
    case (Some s')
    with 1[OF Some] strip_rune_length[OF Some] show ?thesis by (simp add: trim_left.simps)
  qed
qed

lemma trim_runes_length: "length (trim_runes runes s) \<le> length s"
proof -
  have "length (trim_left (map rev runes) (rev (trim_left runes s))) \<le> length (rev (trim_left runes s))"
    by (rule trim_left_length)
  also have "\<dots> \<le> length s"
    by (simp add: trim_left_length)
  finally show ?thesis by (simp add: trim_runes_def)
qed

text \<open>\<^verbatim>\<open>strconv.ParseBool\<close>.\<close>

definition parse_bool :: "string \<Rightarrow> bool option" where
  "parse_bool v =
     (if v \<in> set [''1'', ''t'', ''T'', ''TRUE'', ''true'', ''True''] then Some True
      else if v \<in> set [''0'', ''f'', ''F'', ''FALSE'', ''false'', ''False''] then Some False
      else None)"

text \<open>The spellings that \<open>parse_bool\<close> reads as \<open>true\<close>.\<close>

definition parse_true :: "string list" where
  "parse_true = [''1'', ''t'', ''T'', ''TRUE'', ''true'', ''True'']"

section \<open>Errors\<close>

text \<open>
  The package's sentinel errors, \<^verbatim>\<open>io.EOF\<close>, the errors built with \<^verbatim>\<open>errors.New\<close> and
  \<^verbatim>\<open>fmt.Errorf\<close> (the two that format a number keep the number), and the error object of the
  REST client, which is passed through unchanged and is known by its text.
\<close>

datatype error =
    ErrForbidden
  | ErrNotFound
  | ErrConflict
  | EOF
  | ErrInvalidValueIndex int
  | ErrNoPlaceholder int
  | ErrMsg string
  | ErrTransport string

section \<open>SELECT: \<^verbatim>\<open>StmtSelect.parse\<close>\<close>

record StmtSelect =
  sel_numInput :: int
  sel_withOpts :: "string \<rightharpoonup> string"
  isCrossPartition :: bool
  sel_dbName :: string
  sel_collName :: string
  selectQuery :: string
  placeholders :: "int \<rightharpoonup> string"

text \<open>
  The loop over \<open>matches\<close>: the matches were found in the query as it was before the loop,
  and every round replaces all occurrences of one match text in the current query.
\<close>

fun rewrite_placeholders :: "(string \<times> string) list \<Rightarrow> StmtSelect \<Rightarrow> error + StmtSelect" where
  "rewrite_placeholders [] s = Inr s"
| "rewrite_placeholders ((m0, m1) # ms) s =
     (case atoi m1 of
        (v, True) \<Rightarrow>
          (let key = ''@_'' @ m1;
               s1 = s\<lparr>placeholders := (placeholders s)(v \<mapsto> key)\<rparr>;
               key' = (if has_suffix m0 '' '' then key @ '' '' else key)
           in rewrite_placeholders ms (s1\<lparr>selectQuery := replace_all (selectQuery s1) m0 key'\<rparr>))
      | (v, False) \<Rightarrow> Inl (ErrMsg (''cannot parse query, invalid token at: '' @ m0)))"

text \<open>
  \<^verbatim>\<open>Stmt.parseWithOpts\<close> belongs to another file of the package; \<open>parse\<close> takes it as the
  parameter \<open>parseWithOpts\<close>, which returns the error or the option table it stores in
  \<^verbatim>\<open>s.withOpts\<close>.
\<close>

text \<open>
  The placeholder indices of a query body, one for each occurrence, in the order of the
  occurrences: what \<^verbatim>\<open>strconv.Atoi\<close> makes of the digits of each match.
\<close>

definition placeholder_indices :: "string \<Rightarrow> int list" where
  "placeholder_indices q = map (\<lambda>m. fst (atoi (snd m))) (find_all_placeholders q)"

text \<open>
  Two notions for stating what the rewriting does: the match texts of a query, and the
  shape they all have, a sigil followed by characters that are not sigils.
\<close>

definition sigil_headed :: "string \<Rightarrow> bool" where
  "sigil_headed m = (case m of [] \<Rightarrow> False | c # b \<Rightarrow> is_sigil c \<and> (\<forall>x \<in> set b. \<not> is_sigil x))"

definition match_texts :: "string \<Rightarrow> string list" where
  "match_texts q = map fst (find_all_placeholders q)"

text \<open>
  The named parameters that a query text refers to: the digits after each \<^verbatim>\<open>@_\<close>, as the
  pattern \<^verbatim>\<open>@_(\d+)\<close> finds them from left to right.
\<close>

function named_params :: "string \<Rightarrow> string list" where
  "named_params [] = []"
| "named_params (c # cs) =
     (if c = CHR ''@'' \<and> starts_with (\<lambda>x. x = CHR ''_'') cs \<and> starts_with is_digit (tl cs)
      then takeWhile is_digit (tl cs) # named_params (dropWhile is_digit (tl cs))
      else named_params cs)"
  by pat_completeness auto
termination
proof (relation "measure length")
  show "wf (measure length)" by simp
next
  fix c :: char and cs :: string
  have "length (dropWhile is_digit (tl cs)) \<le> length (tl cs)"
    by (rule length_dropWhile_le)
  then show "(dropWhile is_digit (tl cs), c # cs) \<in> measure length"
    by simp
next
  fix c :: char and cs :: string
  show "(cs, c # cs) \<in> measure length" by simp
qed

text \<open>The blocks of \<open>parse\<close>, in the order of the source.\<close>

definition with_database :: "StmtSelect \<Rightarrow> StmtSelect" where
  "with_database s =
     (case sel_withOpts s ''DATABASE'' of
        Some v \<Rightarrow> s\<lparr>sel_dbName := trim_space v\<rparr>
      | None \<Rightarrow>
         (case sel_withOpts s ''DB'' of
            Some v \<Rightarrow> s\<lparr>sel_dbName := trim_space v\<rparr>
          | None \<Rightarrow> s))"

definition with_collection :: "StmtSelect \<Rightarrow> StmtSelect" where
  "with_collection s =
     (case sel_withOpts s ''COLLECTION'' of
        Some v \<Rightarrow> s\<lparr>sel_collName := trim_space v\<rparr>
      | None \<Rightarrow>
         (case sel_withOpts s ''TABLE'' of
            Some v \<Rightarrow> s\<lparr>sel_collName := trim_space v\<rparr>
          | None \<Rightarrow> s))"

definition cross_partition_error :: "string \<Rightarrow> error" where
  "cross_partition_error v =
     ErrMsg (''cannot parse query (the only accepted value for cross_partition is true), invalid token at: '' @ v)"

definition with_cross_partition :: "StmtSelect \<Rightarrow> error + StmtSelect" where
  "with_cross_partition s =
     (case sel_withOpts s ''CROSS_PARTITION'' of
        Some v \<Rightarrow>
          (if \<not> isCrossPartition s then
             (case parse_bool v of
                Some True \<Rightarrow> Inr (s\<lparr>isCrossPartition := True\<rparr>)
              | _ \<Rightarrow> Inl (cross_partition_error v))
           else Inr s)
      | None \<Rightarrow> Inr s)"

definition scan_placeholders :: "StmtSelect \<Rightarrow> error + StmtSelect" where
  "scan_placeholders s =
     (let matches = find_all_placeholders (selectQuery s)
      in rewrite_placeholders matches
           (s\<lparr>sel_numInput := int (length matches), placeholders := Map.empty\<rparr>))"

definition parse_select ::
  "(string \<Rightarrow> error + (string \<rightharpoonup> string)) \<Rightarrow> string \<Rightarrow> StmtSelect \<Rightarrow> error + StmtSelect" where
  "parse_select parseWithOpts withOptsStr s =
     (case parseWithOpts withOptsStr of
        Inl err \<Rightarrow> Inl err
      | Inr opts \<Rightarrow>
         (case with_cross_partition (with_collection (with_database (s\<lparr>sel_withOpts := opts\<rparr>))) of
            Inl err \<Rightarrow> Inl err
          | Inr s' \<Rightarrow> scan_placeholders s'))"

section \<open>Values, documents and the REST client\<close>

text \<open>
  A Go interface value (\<^verbatim>\<open>interface{}\<close>, \<^verbatim>\<open>driver.Value\<close>) is \<^verbatim>\<open>nil\<close>, a \<^verbatim>\<open>bool\<close>, or some
  other dynamic value, of which the statement code only ever copies; the type \<open>'a\<close> stands
  for those. A slot of \<^verbatim>\<open>values\<close> (or the \<^verbatim>\<open>id\<close> field) holds a \<^verbatim>\<open>placeholder\<close> struct
  or such a value. A panic of the Go runtime (index out of range, nil dereference) is the
  outcome \<open>Panic\<close>.
\<close>

datatype 'a iface = Nil | Bool bool | Other 'a

datatype placeholder = Placeholder (index: int)

datatype 'a slot = Ph placeholder | Data "'a iface"

datatype 'r outcome = Return 'r | Panic

text \<open>
  \<^verbatim>\<open>DocInfo\<close> is \<^verbatim>\<open>map[string]interface{}\<close>: an association list in which the first binding
  of a key counts. Reading a missing key of a Go map gives \<^verbatim>\<open>nil\<close>.
\<close>

type_synonym 'a DocInfo = "(string \<times> 'a iface) list"

definition doc_get :: "'a DocInfo \<Rightarrow> string \<Rightarrow> 'a iface" where
  "doc_get d k = (case map_of d k of None \<Rightarrow> Nil | Some v \<Rightarrow> v)"

fun doc_set :: "'a DocInfo \<Rightarrow> string \<Rightarrow> 'a iface \<Rightarrow> 'a DocInfo" where
  "doc_set [] k v = [(k, v)]"
| "doc_set ((k', v') # d) k v = (if k' = k then (k, v) # d else (k', v') # doc_set d k v)"

record 'a DocReq =
  dr_DbName :: string
  dr_CollName :: string
  dr_DocId :: string
  dr_PartitionKeyValues :: "'a iface list"

record 'a DocumentSpec =
  ds_DbName :: string
  ds_CollName :: string
  ds_IsUpsert :: bool
  ds_PartitionKeyValues :: "'a iface list"
  ds_DocumentData :: "'a DocInfo"

record 'a QueryReq =
  qr_DbName :: string
  qr_CollName :: string
  qr_Query :: string
  qr_Params :: "(string \<times> 'a iface) list"
  qr_CrossPartitionEnabled :: bool
  qr_ContinuationToken :: string

text \<open>
  Every response of the REST client carries a status code and an error (\<^verbatim>\<open>Error()\<close>, here
  its text, or \<open>None\<close> for \<^verbatim>\<open>nil\<close>).
\<close>

record RestResponse =
  StatusCode :: int
  ApiErr :: "string option"

record 'a RespGetDoc = RestResponse +
  DocInfo :: "'a DocInfo"

record 'a RespQueryDocs = RestResponse +
  Count :: int
  Documents :: "'a DocInfo list"
  ContinuationToken :: string

text \<open>
  The REST client is an external collaborator: each call takes the state \<open>'t\<close> of the client
  and the remote store and returns the response with the next state. The methods
  \<^verbatim>\<open>DocInfo.Etag\<close> and \<^verbatim>\<open>DocInfo.RemoveSystemAttrs\<close> are declared with the client and are
  parameters too, as is the rendering \<^verbatim>\<open>fmt.Sprintf("%s", v)\<close> of a bound argument.
\<close>

record ('a, 't) RestClient =
  GetDocument :: "'t \<Rightarrow> 'a DocReq \<Rightarrow> 'a RespGetDoc \<times> 't"
  ReplaceDocument :: "'t \<Rightarrow> string \<Rightarrow> 'a DocumentSpec \<Rightarrow> RestResponse \<times> 't"
  DeleteDocument :: "'t \<Rightarrow> 'a DocReq \<Rightarrow> RestResponse \<times> 't"
  QueryDocuments :: "'t \<Rightarrow> 'a QueryReq \<Rightarrow> 'a RespQueryDocs \<times> 't"
  Etag :: "'a DocInfo \<Rightarrow> string"
  RemoveSystemAttrs :: "'a DocInfo \<Rightarrow> 'a DocInfo"
  Sprintf_s :: "'a iface \<Rightarrow> string"

text \<open>The calls an execution issues to the REST client, in order.\<close>

datatype 'a call =
    CallGetDocument "'a DocReq"
  | CallReplaceDocument string "'a DocumentSpec"
  | CallDeleteDocument "'a DocReq"
  | CallQueryDocuments "'a QueryReq"

definition resource_document :: string where
  "resource_document = ''ResourceType: Document''"

section \<open>SELECT: \<^verbatim>\<open>StmtSelect.Query\<close> and the cursor \<^verbatim>\<open>ResultSelect\<close>\<close>

record 'a ResultSelect =
  count :: int
  documents :: "'a DocInfo list"
  cursorCount :: int
  columnList :: "string list"

text \<open>The loop that binds argument \<open>i\<close> (counted from 0) to the placeholder \<open>i + 1\<close>.\<close>

fun bind_params :: "(int \<rightharpoonup> string) \<Rightarrow> int \<Rightarrow> 'a iface list \<Rightarrow> error + (string \<times> 'a iface) list" where
  "bind_params ph i [] = Inr []"
| "bind_params ph i (arg # args) =
     (case ph (i + 1) of
        None \<Rightarrow> Inl (ErrNoPlaceholder (i + 1))
      | Some v \<Rightarrow>
         (case bind_params ph (i + 1) args of
            Inl e \<Rightarrow> Inl e
          | Inr params \<Rightarrow> Inr ((v, arg) # params)))"

text \<open>
  The paging loop. One round is one call of \<^verbatim>\<open>QueryDocuments\<close> followed by the loop test
  on its response: the \<^verbatim>\<open>for\<close> statement of the source makes the first call in its init
  clause and every later one at the end of the body. Nothing bounds the number of rounds,
  so the loop is a partial function: \<open>None\<close> means that it never ends.
\<close>

partial_function (option) fetch_pages ::
  "('a, 't) RestClient \<Rightarrow> 't \<Rightarrow> 'a QueryReq \<Rightarrow> 'a DocInfo list \<Rightarrow> 'a call list
     \<Rightarrow> ('a DocInfo list \<times> 'a RespQueryDocs \<times> 'a call list \<times> 't) option" where
  "fetch_pages rc t query docs calls =
     (case QueryDocuments rc t query of
        (restResult, t') \<Rightarrow>
          if ApiErr restResult = None then
            (if ContinuationToken restResult = []
             then Some (docs @ Documents restResult, restResult, calls @ [CallQueryDocuments query], t')
             else fetch_pages rc t'
                    (query\<lparr>qr_ContinuationToken := ContinuationToken restResult\<rparr>)
                    (docs @ Documents restResult) (calls @ [CallQueryDocuments query]))
          else Some (docs, restResult, calls @ [CallQueryDocuments query], t'))"

declare fetch_pages.simps [code]

text \<open>
  \<^verbatim>\<open>sort.Strings\<close> of the keys of the first document; strings are compared byte by byte.
\<close>

fun str_le :: "string \<Rightarrow> string \<Rightarrow> bool" where
  "str_le [] ys = True"
| "str_le (x # xs) [] = False"
| "str_le (x # xs) (y # ys) =
     ((of_char x :: nat) < of_char y \<or> (x = y \<and> str_le xs ys))"

fun insort_str :: "string \<Rightarrow> string list \<Rightarrow> string list" where
  "insort_str x [] = [x]"
| "insort_str x (y # ys) = (if str_le x y then x # y # ys else y # insort_str x ys)"

definition sort_strings :: "string list \<Rightarrow> string list" where
  "sort_strings xs = foldr insort_str xs []"

definition map_error :: "int \<Rightarrow> error option \<Rightarrow> error option" where
  "map_error status err =
     (if status = 403 then Some ErrForbidden
      else if status = 404 then Some ErrNotFound
      else if status = 409 then Some ErrConflict
      else err)"

definition select_request :: "StmtSelect \<Rightarrow> (string \<times> 'a iface) list \<Rightarrow> 'a QueryReq" where
  "select_request s params =
     \<lparr>qr_DbName = sel_dbName s, qr_CollName = sel_collName s, qr_Query = selectQuery s,
      qr_Params = params, qr_CrossPartitionEnabled = isCrossPartition s,
      qr_ContinuationToken = []\<rparr>"

definition query_select ::
  "('a, 't) RestClient \<Rightarrow> 't \<Rightarrow> StmtSelect \<Rightarrow> 'a iface list
     \<Rightarrow> (('a ResultSelect option \<times> error option) \<times> 'a call list \<times> 't) option" where
  "query_select rc t s args =
     (case bind_params (placeholders s) 0 args of
        Inl e \<Rightarrow> Some ((None, Some e), [], t)
      | Inr params \<Rightarrow>
         (case fetch_pages rc t (select_request s params) [] [] of
            None \<Rightarrow> None
          | Some (docs, restResult, calls, t') \<Rightarrow>
              (let rows =
                 (if ApiErr restResult = None then
                    Some \<lparr>count = Count restResult, documents = docs, cursorCount = 0,
                          columnList = (case docs of
                                          [] \<Rightarrow> []
                                        | doc # _ \<Rightarrow> sort_strings (remdups (map fst doc)))\<rparr>
                  else None)
               in Some ((rows, map_error (StatusCode restResult)
                                 (map_option ErrTransport (ApiErr restResult))),
                        calls, t'))))"

text \<open>
  The responses that the client gives to the first \<open>n\<close> calls of the paging loop, when
  each call after the first carries the continuation token of the response before it; and
  the calls that are issued when the loop has seen the responses \<open>ps\<close> and goes on.
\<close>

fun page_responses :: "('a, 't) RestClient \<Rightarrow> 't \<Rightarrow> 'a QueryReq \<Rightarrow> nat \<Rightarrow> 'a RespQueryDocs list" where
  "page_responses rc t query 0 = []"
| "page_responses rc t query (Suc n) =
     (case QueryDocuments rc t query of
        (p, t') \<Rightarrow> p # page_responses rc t' (query\<lparr>qr_ContinuationToken := ContinuationToken p\<rparr>) n)"

definition page_requests :: "'a QueryReq \<Rightarrow> 'a RespQueryDocs list \<Rightarrow> 'a call list" where
  "page_requests query ps =
     map CallQueryDocuments
       (query # map (\<lambda>p. query\<lparr>qr_ContinuationToken := ContinuationToken p\<rparr>) ps)"

text \<open>
  \<^verbatim>\<open>ResultSelect.Next(dest)\<close>: the returned error (\<open>None\<close> for \<^verbatim>\<open>nil\<close>) or a panic, the
  cursor after the call and the contents of \<open>dest\<close> after the call. Indexing
  \<^verbatim>\<open>r.documents\<close> out of range panics before the position moves; a \<open>dest\<close> shorter than
  the column list panics after the position has moved and \<open>dest\<close> has been filled.
\<close>

definition next_row ::
  "'a ResultSelect \<Rightarrow> 'a iface list \<Rightarrow> error option outcome \<times> 'a ResultSelect \<times> 'a iface list" where
  "next_row r dest =
     (if cursorCount r \<ge> count r then (Return (Some EOF), r, dest)
      else if cursorCount r < 0 \<or> cursorCount r \<ge> int (length (documents r)) then (Panic, r, dest)
      else
        (let rowData = documents r ! nat (cursorCount r);
             r' = r\<lparr>cursorCount := cursorCount r + 1\<rparr>;
             dest' = map (doc_get rowData) (take (length dest) (columnList r))
                       @ drop (length (columnList r)) dest
         in if length dest < length (columnList r) then (Panic, r', dest')
            else (Return None, r', dest')))"

text \<open>
  A sequence of \<open>n\<close> calls of \<open>Next\<close> on the same cursor and buffer: the outcome of each
  call. A panic ends the sequence.
\<close>

fun next_n :: "nat \<Rightarrow> 'a ResultSelect \<Rightarrow> 'a iface list \<Rightarrow> error option outcome list" where
  "next_n 0 r dest = []"
| "next_n (Suc n) r dest =
     (case next_row r dest of
        (Panic, r', dest') \<Rightarrow> [Panic]
      | (Return e, r', dest') \<Rightarrow> Return e # next_n n r' dest')"

definition rows_yielded :: "error option outcome list \<Rightarrow> nat" where
  "rows_yielded outs = length (filter (\<lambda>out. out = Return None) outs)"

section \<open>DELETE: \<^verbatim>\<open>StmtDelete.Exec\<close>\<close>

record StmtDelete =
  del_numInput :: int
  del_dbName :: string
  del_collName :: string
  del_idStr :: string
  del_id :: "placeholder option"

record ResultDelete =
  rd_Successful :: bool
  rd_StatusCode :: int

text \<open>
  The guard \<^verbatim>\<open>ph.index <= 0 || ph.index >= len(args)\<close> of every placeholder that \<open>Exec\<close>
  resolves: the last argument is the partition key, so it is out of a placeholder's reach.
\<close>

definition invalid_index :: "placeholder \<Rightarrow> 'a list \<Rightarrow> bool" where
  "invalid_index ph args = (index ph \<le> 0 \<or> index ph \<ge> int (length args))"

text \<open>
  The first lines of both \<open>Exec\<close> methods: the id is the literal \<^verbatim>\<open>idStr\<close>, or the bound
  argument of the id placeholder rendered with \<^verbatim>\<open>%s\<close>.
\<close>

definition resolve_id ::
  "placeholder option \<Rightarrow> string \<Rightarrow> 'a iface list \<Rightarrow> ('a iface \<Rightarrow> string) \<Rightarrow> error + string" where
  "resolve_id ph_id idStr args sprintf =
     (case ph_id of
        None \<Rightarrow> Inr idStr
      | Some ph \<Rightarrow>
         if invalid_index ph args
         then Inl (ErrInvalidValueIndex (index ph))
         else Inr (sprintf (args ! nat (index ph - 1))))"

text \<open>
  The \<^verbatim>\<open>switch\<close> on the status code after a delete or a replace. With status 404 the code
  reads the text of the error, which panics when the response carries no error.
\<close>

definition downgrade_404 :: "string option \<Rightarrow> error option outcome" where
  "downgrade_404 err =
     (case err of
        None \<Rightarrow> Panic
      | Some msg \<Rightarrow>
         if str_contains msg resource_document then Return None else Return (Some ErrNotFound))"

definition exec_delete ::
  "('a, 't) RestClient \<Rightarrow> 't \<Rightarrow> StmtDelete \<Rightarrow> 'a iface list
     \<Rightarrow> (ResultDelete option \<times> error option) outcome \<times> 'a call list \<times> 't" where
  "exec_delete rc t s args =
     (case resolve_id (del_id s) (del_idStr s) args (Sprintf_s rc) of
        Inl e \<Rightarrow> (Return (None, Some e), [], t)
      | Inr doc_id \<Rightarrow>
         if del_numInput s - 1 < 0 \<or> del_numInput s - 1 \<ge> int (length args) then (Panic, [], t)
         else
           (let req = \<lparr>dr_DbName = del_dbName s, dr_CollName = del_collName s, dr_DocId = doc_id,
                        dr_PartitionKeyValues = [args ! nat (del_numInput s - 1)]\<rparr>;
                (restClient, t') = DeleteDocument rc t req;
                err = ApiErr restClient;
                result = \<lparr>rd_Successful = (err = None), rd_StatusCode = StatusCode restClient\<rparr>;
                calls = [CallDeleteDocument req]
            in if StatusCode restClient = 403 then (Return (Some result, Some ErrForbidden), calls, t')
               else if StatusCode restClient = 404 then
                 (case downgrade_404 err of
                    Panic \<Rightarrow> (Panic, calls, t')
                  | Return e \<Rightarrow> (Return (Some result, e), calls, t'))
               else (Return (Some result, map_option ErrTransport err), calls, t')))"

definition RowsAffected_delete :: "ResultDelete \<Rightarrow> int" where
  "RowsAffected_delete r = (if rd_Successful r \<and> rd_StatusCode r < 400 then 1 else 0)"

section \<open>UPDATE: \<^verbatim>\<open>StmtUpdate.Exec\<close>\<close>

record 'a StmtUpdate =
  upd_numInput :: int
  upd_dbName :: string
  upd_collName :: string
  updateStr :: string
  upd_idStr :: string
  upd_id :: "placeholder option"
  upd_fields :: "string list"
  upd_values :: "'a slot list"

record ResultUpdate =
  ru_Successful :: bool

text \<open>
  The loop \<^verbatim>\<open>for i := 0; i < len(s.fields); i++\<close> that overlays the SET clause on the fetched
  document: it reads \<^verbatim>\<open>s.values[i]\<close>, which panics when there are fewer values than fields.
\<close>

fun set_fields ::
  "string list \<Rightarrow> 'a slot list \<Rightarrow> 'a iface list \<Rightarrow> 'a DocInfo \<Rightarrow> (error + 'a DocInfo) outcome" where
  "set_fields [] vs args d = Return (Inr d)"
| "set_fields (f # fs) [] args d = Panic"
| "set_fields (f # fs) (v # vs) args d =
     (case v of
        Ph ph \<Rightarrow>
          if invalid_index ph args
          then Return (Inl (ErrInvalidValueIndex (index ph)))
          else set_fields fs vs args (doc_set d f (args ! nat (index ph - 1)))
      | Data x \<Rightarrow> set_fields fs vs args (doc_set d f x))"

definition exec_update ::
  "('a, 't) RestClient \<Rightarrow> 't \<Rightarrow> 'a StmtUpdate \<Rightarrow> 'a iface list
     \<Rightarrow> (ResultUpdate option \<times> error option) outcome \<times> 'a call list \<times> 't" where
  "exec_update rc t s args =
     (case resolve_id (upd_id s) (upd_idStr s) args (Sprintf_s rc) of
        Inl e \<Rightarrow> (Return (None, Some e), [], t)
      | Inr doc_id \<Rightarrow>
         if args = [] then (Panic, [], t)
         else
           (let docReq = \<lparr>dr_DbName = upd_dbName s, dr_CollName = upd_collName s, dr_DocId = doc_id,
                           dr_PartitionKeyValues = [last args]\<rparr>;
                (getDocResult, t1) = GetDocument rc t docReq;
                calls1 = [CallGetDocument docReq]
            in case ApiErr getDocResult of
                 Some msg \<Rightarrow>
                   if StatusCode getDocResult = 404 then
                     (if str_contains msg resource_document
                      then (Return (Some \<lparr>ru_Successful = False\<rparr>, None), calls1, t1)
                      else (Return (None, Some ErrNotFound), calls1, t1))
                   else (Return (None, Some (ErrTransport msg)), calls1, t1)
               | None \<Rightarrow>
                  (let etag = Etag rc (DocInfo getDocResult)
                   in case set_fields (upd_fields s) (upd_values s) args
                             (RemoveSystemAttrs rc (DocInfo getDocResult)) of
                        Panic \<Rightarrow> (Panic, calls1, t1)
                      | Return (Inl e) \<Rightarrow> (Return (None, Some e), calls1, t1)
                      | Return (Inr data) \<Rightarrow>
                         (let spec = \<lparr>ds_DbName = upd_dbName s, ds_CollName = upd_collName s,
                                       ds_IsUpsert = False, ds_PartitionKeyValues = [last args],
                                       ds_DocumentData = data\<rparr>;
                              (replaceDocResult, t2) = ReplaceDocument rc t1 etag spec;
                              err = ApiErr replaceDocResult;
                              result = \<lparr>ru_Successful = (err = None)\<rparr>;
                              calls2 = calls1 @ [CallReplaceDocument etag spec];
                              status = StatusCode replaceDocResult
                          in if status = 403 then (Return (Some result, Some ErrForbidden), calls2, t2)
                             else if status = 404 then
                               (case downgrade_404 err of
                                  Panic \<Rightarrow> (Panic, calls2, t2)
                                | Return e \<Rightarrow> (Return (Some result, e), calls2, t2))
                             else if status = 409 then (Return (Some result, Some ErrConflict), calls2, t2)
                             else if status = 412 then (Return (Some result, None), calls2, t2)
                             else (Return (Some result, map_option ErrTransport err), calls2, t2)))))"

definition RowsAffected_update :: "ResultUpdate \<Rightarrow> int" where
  "RowsAffected_update r = (if ru_Successful r then 1 else 0)"

section \<open>INSERT: the value lexer of \<^verbatim>\<open>StmtInsert.parse\<close>\<close>

text \<open>
  Matching a literal word of lower-case letters under the flag \<^verbatim>\<open>(?i)\<close>: a letter
  matches its two ASCII cases, and \<open>s\<close> also matches U+017F, its third form under Unicode
  case folding. The result is the text after the word.
\<close>

definition fold_forms :: "char \<Rightarrow> string list" where
  "fold_forms c =
     [[c], [char_of (of_char c - (32 :: nat))]]
     @ (if c = CHR ''s'' then [[CHR 0xC5, CHR 0xBF]] else [])"

fun match_word :: "string \<Rightarrow> string \<Rightarrow> string option" where
  "match_word [] s = Some s"
| "match_word (c # cs) s =
     (case strip_rune (fold_forms c) s of
        None \<Rightarrow> None
      | Some s' \<Rightarrow> match_word cs s')"

text \<open>
  The other four value patterns, matched at the start of a string (the source accepts a
  match only when it starts at position 0): the matched text and the text after it.
  \<^verbatim>\<open>reValNull = (?i)(null)\s*,?\<close>, \<^verbatim>\<open>reValNumber = ([\d\.xe+-]+)\s*,?\<close>,
  \<^verbatim>\<open>reValBoolean = (?i)(true|false)\s*,?\<close>.
\<close>

definition match_word_sep :: "string \<Rightarrow> string \<Rightarrow> (string \<times> string) option" where
  "match_word_sep w s =
     (case match_word w s of
        None \<Rightarrow> None
      | Some r \<Rightarrow>
         (case match_sep r of
            (sep, r') \<Rightarrow> Some (take (length s - length r') s, r')))"

definition match_null :: "string \<Rightarrow> (string \<times> string) option" where
  "match_null s = match_word_sep ''null'' s"

definition is_number_char :: "char \<Rightarrow> bool" where
  "is_number_char c = (is_digit c \<or> c \<in> set ''.xe+-'')"

definition match_number :: "string \<Rightarrow> (string \<times> string) option" where
  "match_number s =
     (if starts_with is_number_char s then
        (case match_sep (dropWhile is_number_char s) of
           (sep, r) \<Rightarrow> Some (takeWhile is_number_char s @ sep, r))
      else None)"

definition match_boolean :: "string \<Rightarrow> (string \<times> string) option" where
  "match_boolean s =
     (case match_word_sep ''true'' s of
        Some m \<Rightarrow> Some m
      | None \<Rightarrow> match_word_sep ''false'' s)"

text \<open>
  \<^verbatim>\<open>reValString = (?i)("(\\"|[^"])*?")\s*,?\<close>. After the opening quote the lazy star stops
  at the first position where a quote follows; otherwise it takes, by preference, a
  backslash with the quote after it, and only when the text after those two has no closing
  quote the backslash alone, so that the quote after it closes the string.
\<close>

fun match_string_body :: "string \<Rightarrow> (string \<times> string) option" where
  "match_string_body [] = None"
| "match_string_body (c # cs) =
     (if c = CHR 0x22 then Some ([c], cs)
      else if c = CHR 0x5C \<and> starts_with (\<lambda>x. x = CHR 0x22) cs then
        (case match_string_body (tl cs) of
           Some (m, r) \<Rightarrow> Some (c # CHR 0x22 # m, r)
         | None \<Rightarrow> Some ([c, CHR 0x22], tl cs))
      else
        (case match_string_body cs of
           Some (m, r) \<Rightarrow> Some (c # m, r)
         | None \<Rightarrow> None))"

definition match_string :: "string \<Rightarrow> (string \<times> string) option" where
  "match_string s =
     (case s of
        [] \<Rightarrow> None
      | c # cs \<Rightarrow>
         if c = CHR 0x22 then
           (case match_string_body cs of
              None \<Rightarrow> None
            | Some (m, r) \<Rightarrow>
               (case match_sep r of (sep, r') \<Rightarrow> Some (c # m @ sep, r')))
         else None)"

text \<open>
  The standard library behind the lexer: \<^verbatim>\<open>strconv.Unquote\<close> (\<open>None\<close> for an error) and
  \<^verbatim>\<open>json.Unmarshal\<close> into an \<^verbatim>\<open>interface{}\<close> (\<open>None\<close> for an error) are parameters.
  \<^verbatim>\<open>json.Unmarshal\<close> into a \<^verbatim>\<open>bool\<close> is applied to a text that matched
  \<^verbatim>\<open>(?i)(true|false)\<close>, of which JSON reads the two lower-case spellings.
\<close>

record 'a GoLib =
  Unquote :: "string \<Rightarrow> string option"
  Unmarshal :: "string \<Rightarrow> 'a iface option"

definition unmarshal_bool :: "string \<Rightarrow> bool option" where
  "unmarshal_bool token =
     (if token = ''true'' then Some True else if token = ''false'' then Some False else None)"

text \<open>One round of the loop over the value list: the patterns in the order of the source.\<close>

definition lex_value :: "'a GoLib \<Rightarrow> string \<Rightarrow> error + ('a slot \<times> string)" where
  "lex_value lib temp =
     (case match_placeholder temp of
        Some (m, ds, r) \<Rightarrow> Inr (Ph (Placeholder (fst (atoi (trim_value (tl m))))), r)
      | None \<Rightarrow>
     (case match_null temp of
        Some (m, r) \<Rightarrow> Inr (Data Nil, r)
      | None \<Rightarrow>
     (case match_number temp of
        Some (m, r) \<Rightarrow>
          (case Unmarshal lib (trim_value m) of
             None \<Rightarrow> Inl (ErrMsg (''(nul) cannot parse query, invalid token at: '' @ trim_value m))
           | Some data \<Rightarrow> Inr (Data data, r))
      | None \<Rightarrow>
     (case match_boolean temp of
        Some (m, r) \<Rightarrow>
          (case unmarshal_bool (trim_value m) of
             None \<Rightarrow> Inl (ErrMsg (''(bool) cannot parse query, invalid token at: '' @ trim_value m))
           | Some data \<Rightarrow> Inr (Data (Bool data), r))
      | None \<Rightarrow>
     (case match_string temp of
        Some (m, r) \<Rightarrow>
          (case Unquote lib (trim_value m) of
             None \<Rightarrow> Inl (ErrMsg ''(unquote) cannot parse query, invalid token at: '')
           | Some token \<Rightarrow>
              (case Unmarshal lib token of
                 None \<Rightarrow> Inl (ErrMsg (''(unmarshal) cannot parse query, invalid token at: '' @ token))
               | Some data \<Rightarrow> Inr (Data data, r)))
      | None \<Rightarrow> Inl (ErrMsg (''cannot parse query, invalid token at: '' @ temp)))))))"

lemma match_word_length: "match_word w s = Some r \<Longrightarrow> length r \<le> length s"
proof (induction w arbitrary: s)
  case Nil
  then show ?case by simp
next
  case (Cons c cs)
  from Cons.prems obtain s' where s': "strip_rune (fold_forms c) s = Some s'" and r: "match_word cs s' = Some r"
    by (auto split: option.splits)
  from Cons.IH[OF r] strip_rune_length[OF s'] show ?case by simp
qed

lemma match_word_sep_length:
  assumes "match_word_sep (c # cs) s = Some (m, r)"
  shows "length r < length s"
proof -
  from assms obtain s' r0 sep where s': "strip_rune (fold_forms c) s = Some s'"
    and r0: "match_word cs s' = Some r0" and sep: "match_sep r0 = (sep, r)"
    by (auto simp: match_word_sep_def split: option.splits prod.splits)
  from strip_rune_length[OF s'] match_word_length[OF r0] match_sep_length[OF sep]
  show ?thesis by simp
qed

lemma match_number_length: "match_number s = Some (m, r) \<Longrightarrow> length r < length s"
proof -
  assume a: "match_number s = Some (m, r)"
  then obtain c cs where s: "s = c # cs" and c: "is_number_char c"
    by (cases s) (auto simp: match_number_def split: if_splits)
  from a s c obtain sep where "match_sep (dropWhile is_number_char cs) = (sep, r)"
    by (auto simp: match_number_def split: prod.splits)
  from match_sep_length[OF this] have "length r \<le> length (dropWhile is_number_char cs)" .
  also have "\<dots> \<le> length cs" by (rule length_dropWhile_le)
  finally show ?thesis using s by simp
qed

lemma match_string_body_length: "match_string_body s = Some (m, r) \<Longrightarrow> length r < length s"
proof (induction s arbitrary: m r rule: match_string_body.induct)
  case 1
  then show ?case by simp
next
  case (2 c cs)
  show ?case
  proof (cases "c = CHR 0x22")
    case True
    with 2(3) show ?thesis by simp
  next
    case False
    show ?thesis
    proof (cases "c = CHR 0x5C \<and> starts_with (\<lambda>x. x = CHR 0x22) cs")
      case True
      then obtain d ds where cs: "cs = d # ds" by (cases cs) auto
      show ?thesis
      proof (cases "match_string_body (tl cs)")
        case None
        with 2(3) False True cs show ?thesis by auto
      next
        case (Some mr)
        obtain m' r' where mr: "mr = (m', r')" by (cases mr)
        with Some 2(3) False True have "r = r'" by auto
        with 2(1)[OF False True] Some mr cs show ?thesis by auto
      qed
    next
      case nb: False
      with 2(3) False obtain m' where "match_string_body cs = Some (m', r)"
        by (auto split: option.splits)
      with 2(2)[OF False nb] show ?thesis by auto
    qed
  qed
qed

lemma match_string_length: "match_string s = Some (m, r) \<Longrightarrow> length r < length s"
proof -
  assume a: "match_string s = Some (m, r)"
  then obtain cs m' r' sep where s: "s = CHR 0x22 # cs" and b: "match_string_body cs = Some (m', r')"
    and sep: "match_sep r' = (sep, r)"
    by (cases s) (auto simp: match_string_def split: if_splits option.splits prod.splits)
  from match_string_body_length[OF b] match_sep_length[OF sep] s show ?thesis by simp
qed

lemma lex_value_length: "lex_value lib temp = Inr (v, r) \<Longrightarrow> length r < length temp"
proof -
  assume a: "lex_value lib temp = Inr (v, r)"
  consider (ph) m ds where "match_placeholder temp = Some (m, ds, r)"
    | (null) m where "match_null temp = Some (m, r)"
    | (num) m where "match_number temp = Some (m, r)"
    | (bool) m where "match_boolean temp = Some (m, r)"
    | (str) m where "match_string temp = Some (m, r)"
    using a by (auto simp: lex_value_def split: option.splits)
  then show ?thesis
  proof cases
    case ph
    then show ?thesis by (rule match_placeholder_length)
  next
    case null
    then show ?thesis unfolding match_null_def by (rule match_word_sep_length)
  next
    case num
    then show ?thesis by (rule match_number_length)
  next
    case bool
    then have "match_word_sep ''true'' temp = Some (m, r) \<or> match_word_sep ''false'' temp = Some (m, r)"
      by (auto simp: match_boolean_def split: option.splits)
    then show ?thesis using match_word_sep_length by blast
  next
    case str
    then show ?thesis by (rule match_string_length)
  qed
qed

text \<open>
  The loop \<^verbatim>\<open>for temp := strings.TrimSpace(s.valuesStr); temp != ""; temp = strings.TrimSpace(temp)\<close>:
  the values lexed so far and the input count are carried along.
\<close>

function lex_values :: "'a GoLib \<Rightarrow> string \<Rightarrow> 'a slot list \<Rightarrow> int \<Rightarrow> error + ('a slot list \<times> int)" where
  "lex_values lib temp vals n =
     (if trim_space temp = [] then Inr (vals, n)
      else
        (case lex_value lib (trim_space temp) of
           Inl e \<Rightarrow> Inl e
         | Inr (v, r) \<Rightarrow>
            lex_values lib r (vals @ [v]) (case v of Ph ph \<Rightarrow> n + 1 | Data d \<Rightarrow> n)))"
  by pat_completeness auto
termination
proof (relation "measure (\<lambda>(lib, temp, vals, n). length temp)")
  show "wf (measure (\<lambda>(lib, temp, vals, n). length temp))" by simp
next
  fix lib :: "'a GoLib" and temp :: string and vals :: "'a slot list" and n :: int and x2 v r
  assume "trim_space temp \<noteq> []" "lex_value lib (trim_space temp) = Inr x2" "(v, r) = x2"
  then have "lex_value lib (trim_space temp) = Inr (v, r)" by simp
  from lex_value_length[OF this] have "length r < length (trim_space temp)" .
  also have "\<dots> \<le> length temp" by (simp add: trim_space_def trim_runes_length)
  finally show "((lib, r, vals @ [v], case v of Ph ph \<Rightarrow> n + 1 | Data d \<Rightarrow> n), lib, temp, vals, n)
                  \<in> measure (\<lambda>(lib, temp, vals, n). length temp)"
    by simp
qed

declare lex_values.simps [simp del]


text \<open>
  \<^verbatim>\<open>regexp.MustCompile(`[,\s]+`).Split(s.fieldsStr, -1)\<close>: the pieces between the maximal runs
  of commas and white space, with an empty piece before a leading run and after a trailing
  one. The flag says that the character before was part of such a run.
\<close>

fun split_run :: "bool \<Rightarrow> string \<Rightarrow> string \<Rightarrow> string list" where
  "split_run in_sep piece [] = [piece]"
| "split_run in_sep piece (c # cs) =
     (if is_comma c \<or> is_re_space c then
        (if in_sep then split_run True piece cs else piece # split_run True [] cs)
      else split_run False (piece @ [c]) cs)"

definition split_fields :: "string \<Rightarrow> string list" where
  "split_fields s = split_run False [] s"

record 'a StmtInsert =
  ins_numInput :: int
  ins_dbName :: string
  ins_collName :: string
  isUpsert :: bool
  fieldsStr :: string
  valuesStr :: string
  ins_fields :: "string list"
  ins_values :: "'a slot list"

definition parse_insert :: "'a GoLib \<Rightarrow> 'a StmtInsert \<Rightarrow> error + 'a StmtInsert" where
  "parse_insert lib s =
     (case lex_values lib (valuesStr s) [] 1 of
        Inl e \<Rightarrow> Inl e
      | Inr (vals, n) \<Rightarrow>
          Inr (s\<lparr>ins_fields := split_fields (fieldsStr s), ins_values := vals, ins_numInput := n\<rparr>))"

text \<open>A text between double quotes, and a text between two escaped double quotes.\<close>

definition quoted :: "string \<Rightarrow> string" where
  "quoted s = CHR 0x22 # s @ [CHR 0x22]"

definition escaped_quoted :: "string \<Rightarrow> string" where
  "escaped_quoted s = [CHR 0x5C, CHR 0x22] @ s @ [CHR 0x5C, CHR 0x22]"

section \<open>A scripted REST client\<close>

text \<open>
  A test double for the collaborator: its state holds, for each kind of call, the responses
  still to be served; a call takes the next one, and a call with nothing left to serve
  gets a response with status 500 and an error. Dynamic values are strings.
\<close>

record script =
  on_get :: "string RespGetDoc list"
  on_replace :: "RestResponse list"
  on_delete :: "RestResponse list"
  on_query :: "string RespQueryDocs list"

definition exhausted :: RestResponse where
  "exhausted = \<lparr>StatusCode = 500, ApiErr = Some ''script exhausted''\<rparr>"

definition scripted :: "(string, script) RestClient" where
  "scripted =
     \<lparr>GetDocument = (\<lambda>t req. case on_get t of
          [] \<Rightarrow> (\<lparr>StatusCode = 500, ApiErr = Some ''script exhausted'', DocInfo = []\<rparr>, t)
        | r # rs \<Rightarrow> (r, t\<lparr>on_get := rs\<rparr>)),
      ReplaceDocument = (\<lambda>t etag spec. case on_replace t of
          [] \<Rightarrow> (exhausted, t)
        | r # rs \<Rightarrow> (r, t\<lparr>on_replace := rs\<rparr>)),
      DeleteDocument = (\<lambda>t req. case on_delete t of
          [] \<Rightarrow> (exhausted, t)
        | r # rs \<Rightarrow> (r, t\<lparr>on_delete := rs\<rparr>)),
      QueryDocuments = (\<lambda>t q. case on_query t of
          [] \<Rightarrow> (\<lparr>StatusCode = 500, ApiErr = Some ''script exhausted'', Count = 0,
                  Documents = [], ContinuationToken = []\<rparr>, t)
        | r # rs \<Rightarrow> (r, t\<lparr>on_query := rs\<rparr>)),
      Etag = (\<lambda>d. case doc_get d ''_etag'' of Other e \<Rightarrow> e | _ \<Rightarrow> []),
      RemoveSystemAttrs = filter (\<lambda>kv. \<not> has_prefix (fst kv) ''_''),
      Sprintf_s = (\<lambda>v. case v of Other x \<Rightarrow> x | _ \<Rightarrow> ''%!s'')\<rparr>"

definition no_script :: script where
  "no_script = \<lparr>on_get = [], on_replace = [], on_delete = [], on_query = []\<rparr>"

definition ok_response :: "int \<Rightarrow> RestResponse" where
  "ok_response status = \<lparr>StatusCode = status, ApiErr = None\<rparr>"

definition error_response :: "int \<Rightarrow> string \<Rightarrow> RestResponse" where
  "error_response status msg = \<lparr>StatusCode = status, ApiErr = Some msg\<rparr>"

definition document_gone :: RestResponse where
  "document_gone = error_response 404 ''NotFound, ResourceType: Document, id: doc1''"

definition fetched :: "string RespGetDoc" where
  "fetched = \<lparr>StatusCode = 200, ApiErr = None,
              DocInfo = [(''id'', Other ''doc1''), (''a'', Other ''old''), (''_etag'', Other ''W/abc'')]\<rparr>"

definition delete_doc1 :: StmtDelete where
  "delete_doc1 = \<lparr>del_numInput = 2, del_dbName = ''db1'', del_collName = ''coll1'',
                  del_idStr = '':1'', del_id = Some (Placeholder 1)\<rparr>"

definition delete_doc1_req :: "string DocReq" where
  "delete_doc1_req = \<lparr>dr_DbName = ''db1'', dr_CollName = ''coll1'', dr_DocId = ''doc1'',
                      dr_PartitionKeyValues = [Other ''pk1'']\<rparr>"

definition update_doc1 :: "placeholder \<Rightarrow> string StmtUpdate" where
  "update_doc1 ph = \<lparr>upd_numInput = 2, upd_dbName = ''db1'', upd_collName = ''coll1'',
                     updateStr = ''a=:1'', upd_idStr = ''doc1'', upd_id = None,
                     upd_fields = [''a''], upd_values = [Ph ph]\<rparr>"

definition update_doc1_req :: "string DocReq" where
  "update_doc1_req = \<lparr>dr_DbName = ''db1'', dr_CollName = ''coll1'', dr_DocId = ''doc1'',
                      dr_PartitionKeyValues = [Other ''pk1'']\<rparr>"

definition update_doc1_spec :: "string DocumentSpec" where
  "update_doc1_spec = \<lparr>ds_DbName = ''db1'', ds_CollName = ''coll1'', ds_IsUpsert = False,
                       ds_PartitionKeyValues = [Other ''pk1''],
                       ds_DocumentData = [(''id'', Other ''doc1''), (''a'', Other ''new'')]\<rparr>"

definition gone_fetch :: "string RespGetDoc" where
  "gone_fetch = \<lparr>StatusCode = 404, ApiErr = Some ''NotFound, ResourceType: Document, id: doc1'',
                 DocInfo = []\<rparr>"

definition doc1_args :: "string iface list" where
  "doc1_args = [Other ''doc1'', Other ''pk1'']"

definition new_args :: "string iface list" where
  "new_args = [Other ''new'', Other ''pk1'']"

definition select_stmt :: "string \<Rightarrow> StmtSelect" where
  "select_stmt q = \<lparr>sel_numInput = 0, sel_withOpts = Map.empty, isCrossPartition = False,
                    sel_dbName = ''db1'', sel_collName = ''coll1'', selectQuery = q,
                    placeholders = Map.empty\<rparr>"

definition opts_parser :: "(string \<rightharpoonup> string) \<Rightarrow> string \<Rightarrow> error + (string \<rightharpoonup> string)" where
  "opts_parser opts withOptsStr = Inr opts"

text \<open>
  A test double for the standard library: \<^verbatim>\<open>strconv.Unquote\<close> for a double-quoted text whose
  only escapes are \<^verbatim>\<open>\"\<close> and \<^verbatim>\<open>\\\<close>, and a JSON decoder for \<^verbatim>\<open>null\<close>, the booleans,
  unsigned integers and strings without escapes.
\<close>

datatype json_atom = JNumber int | JString string

fun unescape :: "string \<Rightarrow> string option" where
  "unescape [] = Some []"
| "unescape [c] = (if c = CHR 0x5C \<or> c = CHR 0x22 then None else Some [c])"
| "unescape (c # d # r) =
     (if c = CHR 0x5C then
        (if d = CHR 0x22 \<or> d = CHR 0x5C then map_option ((#) d) (unescape r) else None)
      else if c = CHR 0x22 then None
      else map_option ((#) c) (unescape (d # r)))"

definition between_quotes :: "string \<Rightarrow> string option" where
  "between_quotes s =
     (if 2 \<le> length s \<and> hd s = CHR 0x22 \<and> last s = CHR 0x22 then Some (butlast (tl s)) else None)"

definition json_lib :: "json_atom GoLib" where
  "json_lib =
     \<lparr>Unquote = (\<lambda>s. case between_quotes s of None \<Rightarrow> None | Some inner \<Rightarrow> unescape inner),
      Unmarshal = (\<lambda>s.
        if s = ''null'' then Some Nil
        else if s = ''true'' then Some (Bool True)
        else if s = ''false'' then Some (Bool False)
        else if s \<noteq> [] \<and> list_all is_digit s then Some (Other (JNumber (int (digits_val s))))
        else (case between_quotes s of
                None \<Rightarrow> None
              | Some inner \<Rightarrow>
                 if list_all (\<lambda>c. c \<noteq> CHR 0x22 \<and> c \<noteq> CHR 0x5C) inner
                 then Some (Other (JString inner)) else None))\<rparr>"

definition insert_stmt :: "string \<Rightarrow> json_atom StmtInsert" where
  "insert_stmt vals =
     \<lparr>ins_numInput = 0, ins_dbName = ''db1'', ins_collName = ''coll1'', isUpsert = False,
      fieldsStr = ''a'', valuesStr = vals, ins_fields = [], ins_values = []\<rparr>"

definition doc_page :: "nat \<Rightarrow> string \<Rightarrow> int \<Rightarrow> string RespQueryDocs" where
  "doc_page n token cnt =
     \<lparr>StatusCode = 200, ApiErr = None, Count = cnt,
      Documents = replicate n [(''id'', Other ''x'')], ContinuationToken = token\<rparr>"

lemmas stub_defs =
  scripted_def no_script_def exhausted_def ok_response_def error_response_def
  document_gone_def fetched_def gone_fetch_def delete_doc1_def delete_doc1_req_def
  update_doc1_def update_doc1_req_def update_doc1_spec_def doc1_args_def new_args_def

lemmas char_defs = is_sigil_def is_digit_def is_re_space_def is_comma_def match_sep_def

lemmas exec_defs =
  exec_delete_def exec_update_def resolve_id_def invalid_index_def downgrade_404_def
  resource_document_def doc_get_def RowsAffected_delete_def RowsAffected_update_def

section \<open>The executors and the status codes of the transport\<close>

lemma exec_delete_called:
  assumes "exec_delete rc t s args = (out, [CallDeleteDocument req], t')"
  shows "out = (let resp = fst (DeleteDocument rc t req);
                    result = \<lparr>rd_Successful = (ApiErr resp = None), rd_StatusCode = StatusCode resp\<rparr>
                in if StatusCode resp = 403 then Return (Some result, Some ErrForbidden)
                   else if StatusCode resp = 404 then
                     (case downgrade_404 (ApiErr resp) of
                        Panic \<Rightarrow> Panic
                      | Return e \<Rightarrow> Return (Some result, e))
                   else Return (Some result, map_option ErrTransport (ApiErr resp)))"
  using assms
  by (auto simp: exec_delete_def Let_def split: sum.splits if_splits prod.splits outcome.splits)

lemma exec_update_replaced:
  assumes "exec_update rc t s args = (out, [CallGetDocument req, CallReplaceDocument etag spec], t2)"
  shows "out = (let resp = fst (ReplaceDocument rc (snd (GetDocument rc t req)) etag spec);
                    result = \<lparr>ru_Successful = (ApiErr resp = None)\<rparr>
                in if StatusCode resp = 403 then Return (Some result, Some ErrForbidden)
                   else if StatusCode resp = 404 then
                     (case downgrade_404 (ApiErr resp) of
                        Panic \<Rightarrow> Panic
                      | Return e \<Rightarrow> Return (Some result, e))
                   else if StatusCode resp = 409 then Return (Some result, Some ErrConflict)
                   else if StatusCode resp = 412 then Return (Some result, None)
                   else Return (Some result, map_option ErrTransport (ApiErr resp)))"
  using assms
  by (auto simp: exec_update_def Let_def
           split: sum.splits if_splits prod.splits outcome.splits option.splits)

lemma exec_update_fetched:
  assumes "exec_update rc t s args = (out, [CallGetDocument req], t1)"
      and "ApiErr (fst (GetDocument rc t req)) = Some msg"
  shows "out = (if StatusCode (fst (GetDocument rc t req)) = 404 then
                  (if str_contains msg resource_document
                   then Return (Some \<lparr>ru_Successful = False\<rparr>, None)
                   else Return (None, Some ErrNotFound))
                else Return (None, Some (ErrTransport msg)))"
  using assms
  by (auto simp: exec_update_def Let_def
           split: sum.splits if_splits prod.splits outcome.splits option.splits)

text \<open>
  Claim C4. When \<open>Exec\<close> of a DELETE statement has issued its delete call and the response
  has status 404, the returned error is nil exactly when the response carries an error whose
  text contains the marker \<^verbatim>\<open>ResourceType: Document\<close>; with an error text that lacks the
  marker the returned error is \<^verbatim>\<open>ErrNotFound\<close>. (A 404 with no error at all makes the code
  panic, which returns nothing.) So a second delete of an id, answered by the store with a
  document-level 404, succeeds like the first.
\<close>

theorem delete_404_document_marker:
  assumes "exec_delete rc t s args = (out, [CallDeleteDocument req], t')"
      and "StatusCode (fst (DeleteDocument rc t req)) = 404"
  shows "((\<exists>res. out = Return (res, None)) \<longleftrightarrow>
            (\<exists>msg. ApiErr (fst (DeleteDocument rc t req)) = Some msg
                   \<and> str_contains msg resource_document))
         \<and> (\<forall>msg. ApiErr (fst (DeleteDocument rc t req)) = Some msg
                    \<and> \<not> str_contains msg resource_document
               \<longrightarrow> out = Return (Some \<lparr>rd_Successful = False, rd_StatusCode = 404\<rparr>,
                                 Some ErrNotFound))"
  using exec_delete_called[OF assms(1)] assms(2)
  by (auto simp: Let_def downgrade_404_def split: option.splits)

theorem delete_404_document_marker_witness:
  "exec_delete scripted (no_script\<lparr>on_delete := [ok_response 204, document_gone]\<rparr>)
       delete_doc1 doc1_args
     = (Return (Some \<lparr>rd_Successful = True, rd_StatusCode = 204\<rparr>, None),
        [CallDeleteDocument delete_doc1_req], no_script\<lparr>on_delete := [document_gone]\<rparr>)
   \<and> exec_delete scripted (no_script\<lparr>on_delete := [document_gone]\<rparr>) delete_doc1 doc1_args
     = (Return (Some \<lparr>rd_Successful = False, rd_StatusCode = 404\<rparr>, None),
        [CallDeleteDocument delete_doc1_req], no_script)
   \<and> StatusCode (fst (DeleteDocument scripted (no_script\<lparr>on_delete := [document_gone]\<rparr>)
                          delete_doc1_req)) = 404
   \<and> (\<exists>msg. ApiErr (fst (DeleteDocument scripted (no_script\<lparr>on_delete := [document_gone]\<rparr>)
                              delete_doc1_req)) = Some msg
             \<and> str_contains msg resource_document)"
proof -
  let ?t1 = "no_script\<lparr>on_delete := [document_gone]\<rparr>"
  let ?out = "Return (Some \<lparr>rd_Successful = False, rd_StatusCode = 404\<rparr>, None :: error option)"
  have first: "exec_delete scripted (no_script\<lparr>on_delete := [ok_response 204, document_gone]\<rparr>)
                  delete_doc1 doc1_args
                = (Return (Some \<lparr>rd_Successful = True, rd_StatusCode = 204\<rparr>, None),
                   [CallDeleteDocument delete_doc1_req], ?t1)"
    by (simp add: stub_defs exec_defs)
  have second: "exec_delete scripted ?t1 delete_doc1 doc1_args
                = (?out, [CallDeleteDocument delete_doc1_req], no_script)"
    by (simp add: stub_defs exec_defs)
  have status: "StatusCode (fst (DeleteDocument scripted ?t1 delete_doc1_req)) = 404"
    by (simp add: stub_defs)
  have "(\<exists>res. ?out = Return (res, None)) \<longleftrightarrow>
          (\<exists>msg. ApiErr (fst (DeleteDocument scripted ?t1 delete_doc1_req)) = Some msg
                 \<and> str_contains msg resource_document)"
    using delete_404_document_marker[OF second status] by blast
  then have "\<exists>msg. ApiErr (fst (DeleteDocument scripted ?t1 delete_doc1_req)) = Some msg
                 \<and> str_contains msg resource_document"
    by blast
  with first second status show ?thesis by blast
qed

text \<open>
  Claim C3. When \<open>Exec\<close> of an UPDATE statement has issued its replace call, a response
  with status 412 gives a nil error (whether or not the response carries an error), status
  403 gives \<^verbatim>\<open>ErrForbidden\<close> and status 409 gives \<^verbatim>\<open>ErrConflict\<close>; the result object
  records whether the response carried an error.
\<close>

theorem update_replace_status:
  fixes rc :: "('a, 't) RestClient"
  defines "resp \<equiv> \<lambda>t req etag spec. fst (ReplaceDocument rc (snd (GetDocument rc t req)) etag spec)"
  assumes "exec_update rc t s args = (out, [CallGetDocument req, CallReplaceDocument etag spec], t2)"
  shows "(StatusCode (resp t req etag spec) = 412 \<longrightarrow>
            out = Return (Some \<lparr>ru_Successful = (ApiErr (resp t req etag spec) = None)\<rparr>, None))
       \<and> (StatusCode (resp t req etag spec) = 403 \<longrightarrow>
            out = Return (Some \<lparr>ru_Successful = (ApiErr (resp t req etag spec) = None)\<rparr>,
                          Some ErrForbidden))
       \<and> (StatusCode (resp t req etag spec) = 409 \<longrightarrow>
            out = Return (Some \<lparr>ru_Successful = (ApiErr (resp t req etag spec) = None)\<rparr>,
                          Some ErrConflict))"
  using exec_update_replaced[OF assms(2)] unfolding resp_def
  by (simp add: Let_def)

theorem update_replace_status_witness:
  "exec_update scripted
       (no_script\<lparr>on_get := [fetched], on_replace := [error_response 412 ''PreconditionFailed'']\<rparr>)
       (update_doc1 (Placeholder 1)) new_args
     = (Return (Some \<lparr>ru_Successful = False\<rparr>, None),
        [CallGetDocument update_doc1_req, CallReplaceDocument ''W/abc'' update_doc1_spec],
        no_script)
   \<and> StatusCode (fst (ReplaceDocument scripted
         (snd (GetDocument scripted
                 (no_script\<lparr>on_get := [fetched],
                            on_replace := [error_response 412 ''PreconditionFailed'']\<rparr>)
                 update_doc1_req))
         ''W/abc'' update_doc1_spec)) = 412"
proof -
  let ?t = "no_script\<lparr>on_get := [fetched], on_replace := [error_response 412 ''PreconditionFailed'']\<rparr>"
  obtain out calls t2 where run: "exec_update scripted ?t (update_doc1 (Placeholder 1)) new_args
                                    = (out, calls, t2)"
    by (metis prod_cases3)
  have calls: "calls = [CallGetDocument update_doc1_req, CallReplaceDocument ''W/abc'' update_doc1_spec]"
    using run by (simp add: stub_defs exec_defs has_suffix_def)
  have t2: "t2 = no_script"
    using run by (simp add: stub_defs exec_defs)
  have status: "StatusCode (fst (ReplaceDocument scripted (snd (GetDocument scripted ?t update_doc1_req))
                  ''W/abc'' update_doc1_spec)) = 412"
    by (simp add: stub_defs)
  have err: "ApiErr (fst (ReplaceDocument scripted (snd (GetDocument scripted ?t update_doc1_req))
                  ''W/abc'' update_doc1_spec)) \<noteq> None"
    by (simp add: stub_defs)
  have "out = Return (Some \<lparr>ru_Successful = False\<rparr>, None)"
    using update_replace_status[OF run[unfolded calls]] status err by simp
  with run calls t2 status show ?thesis by simp
qed

text \<open>
  Claim C9. Whenever an executor turns an error of the transport into a nil returned
  error (DELETE after its delete call, UPDATE after its fetch, UPDATE after its replace
  call, each time with a response that carries an error), the result object it returns has
  \<open>Successful = false\<close> and its \<open>RowsAffected\<close> is 0. The row count tells these outcomes
  from the operations that were applied: when the executor returns a nil error after a
  delete call whose response carries no error and a status below 400, or after a replace
  call whose response carries no error, the result has \<open>Successful = true\<close> and
  \<open>RowsAffected\<close> is 1.
\<close>

theorem downgraded_error_affects_no_rows:
  "(exec_delete rc t sd args = (Return (resd, None), [CallDeleteDocument req], t1)
      \<and> ApiErr (fst (DeleteDocument rc t req)) \<noteq> None
      \<longrightarrow> (\<exists>r. resd = Some r \<and> \<not> rd_Successful r \<and> RowsAffected_delete r = 0))
   \<and> (exec_update rc t su args = (Return (resu, None), [CallGetDocument req], t1)
      \<and> ApiErr (fst (GetDocument rc t req)) \<noteq> None
      \<longrightarrow> (\<exists>r. resu = Some r \<and> \<not> ru_Successful r \<and> RowsAffected_update r = 0))
   \<and> (exec_update rc t su args
        = (Return (resu, None), [CallGetDocument req, CallReplaceDocument etag spec], t2)
      \<and> ApiErr (fst (ReplaceDocument rc (snd (GetDocument rc t req)) etag spec)) \<noteq> None
      \<longrightarrow> (\<exists>r. resu = Some r \<and> \<not> ru_Successful r \<and> RowsAffected_update r = 0))
   \<and> (exec_delete rc t sd args = (Return (resd, None), [CallDeleteDocument req], t1)
      \<and> ApiErr (fst (DeleteDocument rc t req)) = None
      \<and> StatusCode (fst (DeleteDocument rc t req)) < 400
      \<longrightarrow> (\<exists>r. resd = Some r \<and> rd_Successful r \<and> RowsAffected_delete r = 1))
   \<and> (exec_update rc t su args
        = (Return (resu, None), [CallGetDocument req, CallReplaceDocument etag spec], t2)
      \<and> ApiErr (fst (ReplaceDocument rc (snd (GetDocument rc t req)) etag spec)) = None
      \<longrightarrow> (\<exists>r. resu = Some r \<and> ru_Successful r \<and> RowsAffected_update r = 1))"
proof (intro conjI impI)
  assume a: "exec_delete rc t sd args = (Return (resd, None), [CallDeleteDocument req], t1)
             \<and> ApiErr (fst (DeleteDocument rc t req)) \<noteq> None"
  then have "resd = Some \<lparr>rd_Successful = False,
                            rd_StatusCode = StatusCode (fst (DeleteDocument rc t req))\<rparr>"
    using exec_delete_called[of rc t sd args "Return (resd, None)" req t1]
    by (auto simp: Let_def split: if_splits outcome.splits)
  then show "\<exists>r. resd = Some r \<and> \<not> rd_Successful r \<and> RowsAffected_delete r = 0"
    by (simp add: RowsAffected_delete_def)
next
  assume a: "exec_update rc t su args = (Return (resu, None), [CallGetDocument req], t1)
             \<and> ApiErr (fst (GetDocument rc t req)) \<noteq> None"
  then obtain msg where "ApiErr (fst (GetDocument rc t req)) = Some msg" by blast
  with a have "resu = Some \<lparr>ru_Successful = False\<rparr>"
    using exec_update_fetched[of rc t su args "Return (resu, None)" req t1 msg]
    by (auto split: if_splits)
  then show "\<exists>r. resu = Some r \<and> \<not> ru_Successful r \<and> RowsAffected_update r = 0"
    by (simp add: RowsAffected_update_def)
next
  assume a: "exec_update rc t su args
               = (Return (resu, None), [CallGetDocument req, CallReplaceDocument etag spec], t2)
             \<and> ApiErr (fst (ReplaceDocument rc (snd (GetDocument rc t req)) etag spec)) \<noteq> None"
  then have "resu = Some \<lparr>ru_Successful = False\<rparr>"
    using exec_update_replaced[of rc t su args "Return (resu, None)" req etag spec t2]
    by (auto simp: Let_def split: if_splits outcome.splits)
  then show "\<exists>r. resu = Some r \<and> \<not> ru_Successful r \<and> RowsAffected_update r = 0"
    by (simp add: RowsAffected_update_def)
next
  assume a: "exec_delete rc t sd args = (Return (resd, None), [CallDeleteDocument req], t1)
             \<and> ApiErr (fst (DeleteDocument rc t req)) = None
             \<and> StatusCode (fst (DeleteDocument rc t req)) < 400"
  then have "resd = Some \<lparr>rd_Successful = True,
                            rd_StatusCode = StatusCode (fst (DeleteDocument rc t req))\<rparr>"
    using exec_delete_called[of rc t sd args "Return (resd, None)" req t1]
    by (auto simp: Let_def split: if_splits outcome.splits)
  with a show "\<exists>r. resd = Some r \<and> rd_Successful r \<and> RowsAffected_delete r = 1"
    by (simp add: RowsAffected_delete_def)
next
  assume a: "exec_update rc t su args
               = (Return (resu, None), [CallGetDocument req, CallReplaceDocument etag spec], t2)
             \<and> ApiErr (fst (ReplaceDocument rc (snd (GetDocument rc t req)) etag spec)) = None"
  then have "resu = Some \<lparr>ru_Successful = True\<rparr>"
    using exec_update_replaced[of rc t su args "Return (resu, None)" req etag spec t2]
    by (auto simp: Let_def split: if_splits outcome.splits)
  then show "\<exists>r. resu = Some r \<and> ru_Successful r \<and> RowsAffected_update r = 1"
    by (simp add: RowsAffected_update_def)
qed

theorem downgraded_error_affects_no_rows_witness:
  "exec_delete scripted (no_script\<lparr>on_delete := [document_gone]\<rparr>) delete_doc1 doc1_args
     = (Return (Some \<lparr>rd_Successful = False, rd_StatusCode = 404\<rparr>, None),
        [CallDeleteDocument delete_doc1_req], no_script)
   \<and> RowsAffected_delete \<lparr>rd_Successful = False, rd_StatusCode = 404\<rparr> = 0
   \<and> exec_update scripted (no_script\<lparr>on_get := [gone_fetch]\<rparr>) (update_doc1 (Placeholder 1)) new_args
     = (Return (Some \<lparr>ru_Successful = False\<rparr>, None), [CallGetDocument update_doc1_req], no_script)
   \<and> exec_update scripted
         (no_script\<lparr>on_get := [fetched], on_replace := [error_response 412 ''PreconditionFailed'']\<rparr>)
         (update_doc1 (Placeholder 1)) new_args
     = (Return (Some \<lparr>ru_Successful = False\<rparr>, None),
        [CallGetDocument update_doc1_req, CallReplaceDocument ''W/abc'' update_doc1_spec], no_script)
   \<and> RowsAffected_update \<lparr>ru_Successful = False\<rparr> = 0
   \<and> exec_delete scripted (no_script\<lparr>on_delete := [ok_response 204]\<rparr>) delete_doc1 doc1_args
     = (Return (Some \<lparr>rd_Successful = True, rd_StatusCode = 204\<rparr>, None),
        [CallDeleteDocument delete_doc1_req], no_script)
   \<and> RowsAffected_delete \<lparr>rd_Successful = True, rd_StatusCode = 204\<rparr> = 1
   \<and> exec_update scripted (no_script\<lparr>on_get := [fetched], on_replace := [ok_response 200]\<rparr>)
         (update_doc1 (Placeholder 1)) new_args
     = (Return (Some \<lparr>ru_Successful = True\<rparr>, None),
        [CallGetDocument update_doc1_req, CallReplaceDocument ''W/abc'' update_doc1_spec], no_script)
   \<and> RowsAffected_update \<lparr>ru_Successful = True\<rparr> = 1"
proof -
  let ?t = "no_script\<lparr>on_delete := [document_gone]\<rparr>"
  let ?r = "\<lparr>rd_Successful = False, rd_StatusCode = 404\<rparr>"
  have del: "exec_delete scripted ?t delete_doc1 doc1_args
               = (Return (Some ?r, None), [CallDeleteDocument delete_doc1_req], no_script)"
    by (simp add: stub_defs exec_defs)
  have err: "ApiErr (fst (DeleteDocument scripted ?t delete_doc1_req)) \<noteq> None"
    by (simp add: stub_defs)
  have "\<exists>r. Some ?r = Some r \<and> \<not> rd_Successful r \<and> RowsAffected_delete r = 0"
    by (rule downgraded_error_affects_no_rows
               [of scripted ?t delete_doc1 doc1_args "Some ?r" delete_doc1_req no_script,
                THEN conjunct1, THEN mp, OF conjI[OF del err]])
  then have rows: "RowsAffected_delete ?r = 0" by auto
  have fetch: "exec_update scripted (no_script\<lparr>on_get := [gone_fetch]\<rparr>)
                   (update_doc1 (Placeholder 1)) new_args
                 = (Return (Some \<lparr>ru_Successful = False\<rparr>, None),
                    [CallGetDocument update_doc1_req], no_script)"
    by (simp add: stub_defs exec_defs)
  have replace: "exec_update scripted
         (no_script\<lparr>on_get := [fetched], on_replace := [error_response 412 ''PreconditionFailed'']\<rparr>)
         (update_doc1 (Placeholder 1)) new_args
     = (Return (Some \<lparr>ru_Successful = False\<rparr>, None),
        [CallGetDocument update_doc1_req, CallReplaceDocument ''W/abc'' update_doc1_spec], no_script)"
    by (simp add: stub_defs exec_defs)
  have none: "RowsAffected_update \<lparr>ru_Successful = False\<rparr> = 0"
    by (simp add: RowsAffected_update_def)
  let ?t2 = "no_script\<lparr>on_delete := [ok_response 204]\<rparr>"
  let ?r2 = "\<lparr>rd_Successful = True, rd_StatusCode = 204\<rparr>"
  have del2: "exec_delete scripted ?t2 delete_doc1 doc1_args
               = (Return (Some ?r2, None), [CallDeleteDocument delete_doc1_req], no_script)"
    by (simp add: stub_defs exec_defs)
  have ok2: "ApiErr (fst (DeleteDocument scripted ?t2 delete_doc1_req)) = None
             \<and> StatusCode (fst (DeleteDocument scripted ?t2 delete_doc1_req)) < 400"
    by (simp add: stub_defs)
  have "\<exists>r. Some ?r2 = Some r \<and> rd_Successful r \<and> RowsAffected_delete r = 1"
    by (rule downgraded_error_affects_no_rows
               [of scripted ?t2 delete_doc1 doc1_args "Some ?r2" delete_doc1_req no_script,
                THEN conjunct2, THEN conjunct2, THEN conjunct2, THEN conjunct1, THEN mp,
                OF conjI[OF del2 ok2]])
  then have rows2: "RowsAffected_delete ?r2 = 1" by auto
  let ?t3 = "no_script\<lparr>on_get := [fetched], on_replace := [ok_response 200]\<rparr>"
  have upd3: "exec_update scripted ?t3 (update_doc1 (Placeholder 1)) new_args
     = (Return (Some \<lparr>ru_Successful = True\<rparr>, None),
        [CallGetDocument update_doc1_req, CallReplaceDocument ''W/abc'' update_doc1_spec], no_script)"
    by (simp add: stub_defs exec_defs)
  have one: "RowsAffected_update \<lparr>ru_Successful = True\<rparr> = 1"
    by (simp add: RowsAffected_update_def)
  from del rows fetch replace none del2 rows2 upd3 one show ?thesis by simp
qed

section \<open>UPDATE: placeholders out of range\<close>

lemma set_fields_invalid:
  assumes "Ph ph \<in> set (take (length fs) vs)" and "invalid_index ph args"
  shows "\<exists>ph'. Ph ph' \<in> set (take (length fs) vs) \<and> invalid_index ph' args
           \<and> set_fields fs vs args d = Return (Inl (ErrInvalidValueIndex (index ph')))"
  using assms
proof (induction fs vs args d rule: set_fields.induct)
  case (1 vs args d)
  then show ?case by simp
next
  case (2 f fs args d)
  then show ?case by simp
next
  case (3 f fs v vs args d)
  show ?case
  proof (cases v)
    case (Ph p)
    show ?thesis
    proof (cases "invalid_index p args")
      case True
      with Ph show ?thesis by auto
    next
      case False
      with Ph 3 have "Ph ph \<in> set (take (length fs) vs)" by auto
      with 3(1)[OF Ph False _ 3(4)] obtain ph' where
        "Ph ph' \<in> set (take (length fs) vs)" "invalid_index ph' args"
        "set_fields fs vs args (doc_set d f (args ! nat (index p - 1))) = Return (Inl (ErrInvalidValueIndex (index ph')))"
        by blast
      with Ph False show ?thesis by auto
    qed
  next
    case (Data x)
    with 3 have "Ph ph \<in> set (take (length fs) vs)" by auto
    with 3(2)[OF Data _ 3(4)] obtain ph' where
      "Ph ph' \<in> set (take (length fs) vs)" "invalid_index ph' args"
      "set_fields fs vs args (doc_set d f x) = Return (Inl (ErrInvalidValueIndex (index ph')))"
      by blast
    with Data show ?thesis by auto
  qed
qed


lemma exec_update_no_replace:
  assumes "\<And>d. \<exists>e. set_fields (upd_fields s) (upd_values s) args d = Return (Inl e)"
  shows "fst (snd (exec_update rc t s args)) = []
         \<or> (\<exists>req. fst (snd (exec_update rc t s args)) = [CallGetDocument req])"
proof (cases "resolve_id (upd_id s) (upd_idStr s) args (Sprintf_s rc)")
  case (Inl e)
  then show ?thesis by (simp add: exec_update_def)
next
  case (Inr doc_id)
  show ?thesis
  proof (cases "args = []")
    case True
    with Inr show ?thesis by (simp add: exec_update_def)
  next
    case False
    define req where "req = \<lparr>dr_DbName = upd_dbName s, dr_CollName = upd_collName s,
                              dr_DocId = doc_id, dr_PartitionKeyValues = [last args]\<rparr>"
    obtain g t1 where g: "GetDocument rc t req = (g, t1)" by force
    obtain e where e: "set_fields (upd_fields s) (upd_values s) args
                         (RemoveSystemAttrs rc (DocInfo g)) = Return (Inl e)"
      using assms by blast
    have "fst (snd (exec_update rc t s args)) = [CallGetDocument req]"
      using Inr False g e unfolding req_def
      by (simp add: exec_update_def Let_def split: option.splits)
    then show ?thesis by blast
  qed
qed


text \<open>
  Claim C1, as stated, fails: the SET clause is resolved after the fetch. Here the only SET
  value is the placeholder 2 and two arguments are bound, so the index equals the argument
  count; \<open>Exec\<close> still issues the fetch. When the fetch succeeds \<open>Exec\<close> then fails with the
  index error; when the fetch is answered by a document-level 404, \<open>Exec\<close> returns a nil
  error.
\<close>

theorem update_set_placeholder_fetches_counterexample:
  "invalid_index (Placeholder 2) new_args
   \<and> exec_update scripted (no_script\<lparr>on_get := [fetched]\<rparr>) (update_doc1 (Placeholder 2)) new_args
     = (Return (None, Some (ErrInvalidValueIndex 2)), [CallGetDocument update_doc1_req], no_script)
   \<and> exec_update scripted (no_script\<lparr>on_get := [gone_fetch]\<rparr>) (update_doc1 (Placeholder 2)) new_args
     = (Return (Some \<lparr>ru_Successful = False\<rparr>, None), [CallGetDocument update_doc1_req], no_script)"
  by (simp add: stub_defs exec_defs)

text \<open>
  Claim C1, amended. An id placeholder whose index is below 1 or not below the number of
  bound arguments makes \<open>Exec\<close> fail with the index error before any call to the transport.
  A SET-clause placeholder with such an index (among the values the loop over the fields
  reaches) never lets \<open>Exec\<close> issue the replace call; and when the fetch was the one call
  issued and came back without error, \<open>Exec\<close> fails with the index error of a SET-clause
  placeholder that is out of range.
\<close>

theorem update_invalid_placeholder:
  "(\<forall>ph. upd_id s = Some ph \<and> invalid_index ph args \<longrightarrow>
       exec_update rc t s args = (Return (None, Some (ErrInvalidValueIndex (index ph))), [], t))
   \<and> (\<forall>ph. Ph ph \<in> set (take (length (upd_fields s)) (upd_values s)) \<and> invalid_index ph args \<longrightarrow>
        (\<forall>etag spec. CallReplaceDocument etag spec \<notin> set (fst (snd (exec_update rc t s args))))
        \<and> (\<forall>req. fst (snd (exec_update rc t s args)) = [CallGetDocument req]
                   \<and> ApiErr (fst (GetDocument rc t req)) = None \<longrightarrow>
              (\<exists>ph'. Ph ph' \<in> set (upd_values s) \<and> invalid_index ph' args
                 \<and> fst (exec_update rc t s args) = Return (None, Some (ErrInvalidValueIndex (index ph'))))))"
proof (intro conjI allI impI)
  fix ph assume "upd_id s = Some ph \<and> invalid_index ph args"
  then show "exec_update rc t s args = (Return (None, Some (ErrInvalidValueIndex (index ph))), [], t)"
    by (simp add: exec_update_def resolve_id_def)
next
  fix ph etag spec
  assume a: "Ph ph \<in> set (take (length (upd_fields s)) (upd_values s)) \<and> invalid_index ph args"
  have "\<And>d. \<exists>e. set_fields (upd_fields s) (upd_values s) args d = Return (Inl e)"
    using set_fields_invalid a by blast
  then have "fst (snd (exec_update rc t s args)) = []
         \<or> (\<exists>req. fst (snd (exec_update rc t s args)) = [CallGetDocument req])"
    by (rule exec_update_no_replace)
  then show "CallReplaceDocument etag spec \<notin> set (fst (snd (exec_update rc t s args)))"
    by auto
next
  fix ph req
  assume a: "Ph ph \<in> set (take (length (upd_fields s)) (upd_values s)) \<and> invalid_index ph args"
  assume b: "fst (snd (exec_update rc t s args)) = [CallGetDocument req] \<and> ApiErr (fst (GetDocument rc t req)) = None"
  have c: "\<And>d. \<exists>ph'. Ph ph' \<in> set (upd_values s) \<and> invalid_index ph' args \<and> set_fields (upd_fields s) (upd_values s) args d = Return (Inl (ErrInvalidValueIndex (index ph')))"
    using set_fields_invalid a by (meson in_set_takeD)
  from b obtain doc_id where r: "resolve_id (upd_id s) (upd_idStr s) args (Sprintf_s rc) = Inr doc_id"
    and ne: "args \<noteq> []"
    by (auto simp: exec_update_def split: sum.splits if_splits)
  from b r ne have req: "req = \<lparr>dr_DbName = upd_dbName s, dr_CollName = upd_collName s, dr_DocId = doc_id,
                           dr_PartitionKeyValues = [last args]\<rparr>"
    by (auto simp: exec_update_def Let_def split: sum.splits prod.splits option.splits if_splits outcome.splits)
  obtain g t1 where g: "GetDocument rc t req = (g, t1)" by force
  with b have ge: "ApiErr g = None" by simp
  obtain ph' where p: "Ph ph' \<in> set (upd_values s)" "invalid_index ph' args"
     "set_fields (upd_fields s) (upd_values s) args (RemoveSystemAttrs rc (DocInfo g)) = Return (Inl (ErrInvalidValueIndex (index ph')))"
    using c by blast
  have "fst (exec_update rc t s args) = Return (None, Some (ErrInvalidValueIndex (index ph')))"
    using r ne g ge p(3) unfolding req
    by (simp add: exec_update_def Let_def)
  with p show "\<exists>ph'. Ph ph' \<in> set (upd_values s) \<and> invalid_index ph' args
                 \<and> fst (exec_update rc t s args) = Return (None, Some (ErrInvalidValueIndex (index ph')))"
    by blast
qed

theorem update_invalid_placeholder_witness:
  "upd_id ((update_doc1 (Placeholder 1))\<lparr>upd_id := Some (Placeholder 2)\<rparr>) = Some (Placeholder 2)
   \<and> invalid_index (Placeholder 2) new_args
   \<and> exec_update scripted (no_script\<lparr>on_get := [fetched]\<rparr>)
        ((update_doc1 (Placeholder 1))\<lparr>upd_id := Some (Placeholder 2)\<rparr>) new_args
     = (Return (None, Some (ErrInvalidValueIndex 2)), [], no_script\<lparr>on_get := [fetched]\<rparr>)
   \<and> Ph (Placeholder 0) \<in> set (take (length (upd_fields (update_doc1 (Placeholder 0))))
                                     (upd_values (update_doc1 (Placeholder 0))))
   \<and> invalid_index (Placeholder 0) new_args
   \<and> fst (snd (exec_update scripted (no_script\<lparr>on_get := [fetched]\<rparr>)
                  (update_doc1 (Placeholder 0)) new_args))
     = [CallGetDocument update_doc1_req]
   \<and> CallReplaceDocument ''W/abc'' update_doc1_spec
       \<notin> set (fst (snd (exec_update scripted (no_script\<lparr>on_get := [fetched]\<rparr>)
                          (update_doc1 (Placeholder 0)) new_args)))"
proof -
  let ?t = "no_script\<lparr>on_get := [fetched]\<rparr>"
  let ?s = "(update_doc1 (Placeholder 1))\<lparr>upd_id := Some (Placeholder 2)\<rparr>"
  have id: "upd_id ?s = Some (Placeholder 2) \<and> invalid_index (Placeholder 2) new_args"
    by (simp add: stub_defs invalid_index_def)
  have set: "Ph (Placeholder 0) \<in> set (take (length (upd_fields (update_doc1 (Placeholder 0))))
                                          (upd_values (update_doc1 (Placeholder 0))))
             \<and> invalid_index (Placeholder 0) new_args"
    by (simp add: stub_defs invalid_index_def)
  have calls: "fst (snd (exec_update scripted ?t (update_doc1 (Placeholder 0)) new_args))
                 = [CallGetDocument update_doc1_req]"
    by (simp add: stub_defs exec_defs)
  from update_invalid_placeholder[of ?s new_args scripted ?t] id
  have first: "exec_update scripted ?t ?s new_args
                 = (Return (None, Some (ErrInvalidValueIndex 2)), [], ?t)"
    by fastforce
  from update_invalid_placeholder[of "update_doc1 (Placeholder 0)" new_args scripted ?t] set
  have "CallReplaceDocument ''W/abc'' update_doc1_spec
          \<notin> set (fst (snd (exec_update scripted ?t (update_doc1 (Placeholder 0)) new_args)))"
    by blast
  with id set calls first show ?thesis by blast
qed

section \<open>SELECT: the options and the placeholders of \<open>parse\<close>\<close>

lemma rewrite_placeholders_ok:
  "(\<exists>s'. rewrite_placeholders ms s = Inr s') \<longleftrightarrow> (\<forall>m \<in> set ms. snd (atoi (snd m)))"
proof (induction ms arbitrary: s)
  case Nil
  show ?case by simp
next
  case (Cons m ms)
  obtain m0 m1 where m: "m = (m0, m1)" by (cases m)
  obtain v ok where a: "atoi m1 = (v, ok)" by (cases "atoi m1")
  show ?case
  proof (cases ok)
    case True
    with m a Cons.IH show ?thesis by (simp add: Let_def)
  next
    case False
    with m a show ?thesis by simp
  qed
qed

lemma rewrite_placeholders_keeps:
  "rewrite_placeholders ms s = Inr s' \<Longrightarrow>
     isCrossPartition s' = isCrossPartition s \<and> sel_numInput s' = sel_numInput s
     \<and> dom (placeholders s') = dom (placeholders s) \<union> set (map (\<lambda>m. fst (atoi (snd m))) ms)"
proof (induction ms arbitrary: s)
  case Nil
  then show ?case by simp
next
  case (Cons m ms)
  obtain m0 m1 where m: "m = (m0, m1)" by (cases m)
  obtain v ok where a: "atoi m1 = (v, ok)" by (cases "atoi m1")
  show ?case
  proof (cases ok)
    case True
    define key' where "key' = (if has_suffix m0 '' '' then (''@_'' @ m1) @ '' '' else ''@_'' @ m1)"
    define s2 where "s2 = s\<lparr>placeholders := (placeholders s)(v \<mapsto> ''@_'' @ m1),
                            selectQuery := replace_all (selectQuery s) m0 key'\<rparr>"
    from Cons.prems m a True have "rewrite_placeholders ms s2 = Inr s'"
      by (cases "has_suffix m0 '' ''") (simp_all add: Let_def s2_def key'_def)
    from Cons.IH[OF this] m a show ?thesis by (auto simp: s2_def)
  next
    case False
    with Cons.prems m a show ?thesis by simp
  qed
qed

lemma parse_bool_true: "parse_bool v = Some True \<longleftrightarrow> v \<in> set parse_true"
  by (simp add: parse_bool_def parse_true_def)

lemma head_blocks:
  "selectQuery (with_collection (with_database (s\<lparr>sel_withOpts := opts\<rparr>))) = selectQuery s"
  "isCrossPartition (with_collection (with_database (s\<lparr>sel_withOpts := opts\<rparr>))) = isCrossPartition s"
  "sel_withOpts (with_collection (with_database (s\<lparr>sel_withOpts := opts\<rparr>))) = opts"
  by (simp_all add: with_collection_def with_database_def split: option.splits)


text \<open>
  Claim C7, as stated, fails: the value is read with \<^verbatim>\<open>strconv.ParseBool\<close>, which accepts
  more spellings of true than the literal \<^verbatim>\<open>true\<close>. With \<^verbatim>\<open>cross_partition=1\<close> \<open>parse\<close>
  succeeds and sets the flag.
\<close>

theorem cross_partition_one_counterexample:
  "''1'' \<noteq> ''true''
   \<and> parse_select (opts_parser [''CROSS_PARTITION'' \<mapsto> ''1'']) ''WITH cross_partition=1''
        (select_stmt ''SELECT * FROM c'')
     = Inr ((select_stmt ''SELECT * FROM c'')
              \<lparr>sel_withOpts := [''CROSS_PARTITION'' \<mapsto> ''1''], isCrossPartition := True\<rparr>)"
  by (simp add: parse_select_def opts_parser_def select_stmt_def with_database_def
        with_collection_def with_cross_partition_def parse_bool_def scan_placeholders_def
        is_sigil_def)

text \<open>
  Claim C7, amended. For a SELECT statement whose options carry \<^verbatim>\<open>CROSS_PARTITION\<close> and
  whose cross-partition flag is not yet set, \<open>parse\<close> succeeds if and only if
  \<^verbatim>\<open>strconv.ParseBool\<close> reads the value as true (one of \<^verbatim>\<open>1 t T TRUE true True\<close>) and every
  placeholder index of the query body is in the range of \<^verbatim>\<open>strconv.Atoi\<close>; when it succeeds
  the flag is set; any other value of the option is the parse error about
  \<^verbatim>\<open>cross_partition\<close>.
\<close>

theorem cross_partition_option:
  assumes "parseWithOpts withOptsStr = Inr opts"
      and "opts ''CROSS_PARTITION'' = Some v"
      and "\<not> isCrossPartition s"
  shows "((\<exists>s'. parse_select parseWithOpts withOptsStr s = Inr s') \<longleftrightarrow>
            (v \<in> set parse_true
             \<and> (\<forall>m \<in> set (find_all_placeholders (selectQuery s)). snd (atoi (snd m)))))
       \<and> (\<forall>s'. parse_select parseWithOpts withOptsStr s = Inr s' \<longrightarrow> isCrossPartition s')
       \<and> (v \<notin> set parse_true \<longrightarrow>
            parse_select parseWithOpts withOptsStr s = Inl (cross_partition_error v))"
proof -
  define s3 where "s3 = with_collection (with_database (s\<lparr>sel_withOpts := opts\<rparr>))"
  have s3: "selectQuery s3 = selectQuery s" "\<not> isCrossPartition s3" "sel_withOpts s3 ''CROSS_PARTITION'' = Some v"
    using assms by (simp_all add: s3_def head_blocks)
  define ms where "ms = find_all_placeholders (selectQuery s)"
  define start where "start = s3\<lparr>isCrossPartition := True, sel_numInput := int (length ms), placeholders := Map.empty\<rparr>"
  show ?thesis
  proof (cases "v \<in> set parse_true")
    case True
    then have "parse_bool v = Some True" by (simp add: parse_bool_true)
    with s3 have "with_cross_partition s3 = Inr (s3\<lparr>isCrossPartition := True\<rparr>)"
      by (simp add: with_cross_partition_def)
    with assms(1) s3(1) have p: "parse_select parseWithOpts withOptsStr s = rewrite_placeholders ms start"
      by (simp add: parse_select_def s3_def[symmetric] scan_placeholders_def Let_def ms_def start_def)
    have "isCrossPartition start" by (simp add: start_def)
    with p True show ?thesis
      using rewrite_placeholders_ok[of ms start] rewrite_placeholders_keeps[of ms start]
      by (auto simp: ms_def)
  next
    case False
    then have "parse_bool v \<noteq> Some True" by (simp add: parse_bool_true)
    with s3 have "with_cross_partition s3 = Inl (cross_partition_error v)"
      by (auto simp: with_cross_partition_def split: option.splits bool.splits)
    with assms(1) have "parse_select parseWithOpts withOptsStr s = Inl (cross_partition_error v)"
      by (simp add: parse_select_def s3_def[symmetric])
    with False show ?thesis by simp
  qed
qed

theorem cross_partition_option_witness:
  "opts_parser [''CROSS_PARTITION'' \<mapsto> ''TRUE''] ''WITH cross_partition=TRUE''
     = Inr [''CROSS_PARTITION'' \<mapsto> ''TRUE'']
   \<and> [''CROSS_PARTITION'' \<mapsto> ''TRUE''] ''CROSS_PARTITION'' = Some ''TRUE''
   \<and> \<not> isCrossPartition (select_stmt ''SELECT * FROM c WHERE c.a=@1'')
   \<and> ''TRUE'' \<in> set parse_true
   \<and> (\<exists>s'. parse_select (opts_parser [''CROSS_PARTITION'' \<mapsto> ''TRUE''])
               ''WITH cross_partition=TRUE'' (select_stmt ''SELECT * FROM c WHERE c.a=@1'') = Inr s')
   \<and> parse_select (opts_parser [''CROSS_PARTITION'' \<mapsto> ''no'']) ''WITH cross_partition=no''
        (select_stmt ''SELECT * FROM c WHERE c.a=@1'')
     = Inl (cross_partition_error ''no'')"
proof -
  let ?s = "select_stmt ''SELECT * FROM c WHERE c.a=@1''"
  have h1: "opts_parser [''CROSS_PARTITION'' \<mapsto> ''TRUE''] ''WITH cross_partition=TRUE''
              = Inr [''CROSS_PARTITION'' \<mapsto> ''TRUE'']"
    by (simp add: opts_parser_def)
  have h2: "[''CROSS_PARTITION'' \<mapsto> ''TRUE''] ''CROSS_PARTITION'' = Some ''TRUE''"
    by simp
  have h3: "\<not> isCrossPartition ?s"
    by (simp add: select_stmt_def)
  have t: "''TRUE'' \<in> set parse_true"
    by (simp add: parse_true_def)
  have ms: "find_all_placeholders (selectQuery ?s) = [(''@1'', ''1'')]"
    by (simp add: select_stmt_def is_sigil_def is_digit_def match_sep_def is_comma_def)
  have ok: "\<forall>m \<in> set (find_all_placeholders (selectQuery ?s)). snd (atoi (snd m))"
    unfolding ms by (simp add: atoi_digits_def is_digit_def digits_val_def digit_val_def max_int64_def)
  have yes: "\<exists>s'. parse_select (opts_parser [''CROSS_PARTITION'' \<mapsto> ''TRUE''])
               ''WITH cross_partition=TRUE'' ?s = Inr s'"
    using cross_partition_option[of "opts_parser [''CROSS_PARTITION'' \<mapsto> ''TRUE'']"
            "''WITH cross_partition=TRUE''" "[''CROSS_PARTITION'' \<mapsto> ''TRUE'']" "''TRUE''" ?s, OF h1 h2 h3]
          t ok by blast
  have g1: "opts_parser [''CROSS_PARTITION'' \<mapsto> ''no''] ''WITH cross_partition=no''
              = Inr [''CROSS_PARTITION'' \<mapsto> ''no'']"
    by (simp add: opts_parser_def)
  have g2: "[''CROSS_PARTITION'' \<mapsto> ''no''] ''CROSS_PARTITION'' = Some ''no''"
    by simp
  have f: "''no'' \<notin> set parse_true"
    by (simp add: parse_true_def)
  have no: "parse_select (opts_parser [''CROSS_PARTITION'' \<mapsto> ''no'']) ''WITH cross_partition=no'' ?s
              = Inl (cross_partition_error ''no'')"
    using cross_partition_option[of "opts_parser [''CROSS_PARTITION'' \<mapsto> ''no'']"
            "''WITH cross_partition=no''" "[''CROSS_PARTITION'' \<mapsto> ''no'']" "''no''" ?s, OF g1 g2 h3]
          f by blast
  from h1 h2 h3 t yes no show ?thesis by blast
qed

section \<open>SELECT: the cursor\<close>

lemma next_row_keeps:
  "next_row r dest = (out, r', dest') \<Longrightarrow>
     documents r' = documents r \<and> count r' = count r \<and> columnList r' = columnList r"
  by (auto simp: next_row_def Let_def split: if_splits)

lemma next_n_bound:
  "rows_yielded (next_n n r dest) \<le> nat (int (length (documents r)) - cursorCount r)"
proof (induction n arbitrary: r dest)
  case 0
  show ?case by (simp add: rows_yielded_def)
next
  case (Suc n)
  obtain out r' dest' where nr: "next_row r dest = (out, r', dest')"
    by (cases "next_row r dest")
  show ?case
  proof (cases out)
    case Panic
    with nr show ?thesis by (simp add: rows_yielded_def)
  next
    case (Return e)
    note IH = Suc.IH[of r' dest']
    show ?thesis
    proof (cases e)
      case (Some err)
      with nr Return have "r' = r"
        by (auto simp: next_row_def Let_def split: if_splits)
      with nr Return Some IH show ?thesis by (simp add: rows_yielded_def)
    next
      case None
      with nr Return have "0 \<le> cursorCount r \<and> cursorCount r < int (length (documents r))
                          \<and> cursorCount r' = cursorCount r + 1 \<and> documents r' = documents r"
        by (auto simp: next_row_def Let_def split: if_splits)
      with nr Return None IH show ?thesis by (simp add: rows_yielded_def) arith
    qed
  qed
qed

lemma next_n_eof:
  assumes "0 \<le> cursorCount r" and "count r \<le> int (length (documents r))"
      and "length (columnList r) \<le> length dest"
  shows "next_n n r dest
           = replicate (min n (nat (count r - cursorCount r))) (Return None)
             @ replicate (n - nat (count r - cursorCount r)) (Return (Some EOF))"
  using assms
proof (induction n arbitrary: r dest)
  case 0
  show ?case by simp
next
  case (Suc n)
  show ?case
  proof (cases "cursorCount r \<ge> count r")
    case True
    then have nr: "next_row r dest = (Return (Some EOF), r, dest)"
      by (simp add: next_row_def)
    from True have z: "nat (count r - cursorCount r) = 0" by simp
    from Suc.IH[OF Suc.prems] nr z show ?thesis
      by (simp add: replicate_Suc[symmetric] del: replicate_Suc)
  next
    case False
    define r' where "r' = r\<lparr>cursorCount := cursorCount r + 1\<rparr>"
    define dest' where "dest' = map (doc_get (documents r ! nat (cursorCount r))) (take (length dest) (columnList r))
                       @ drop (length (columnList r)) dest"
    from False Suc.prems have nr: "next_row r dest = (Return None, r', dest')"
      by (simp add: next_row_def Let_def r'_def dest'_def)
    have p: "0 \<le> cursorCount r'" "count r' \<le> int (length (documents r'))"
            "length (columnList r') \<le> length dest'"
      using Suc.prems by (simp_all add: r'_def dest'_def)
    from False have k: "nat (count r - cursorCount r) = Suc (nat (count r' - cursorCount r'))"
      by (simp add: r'_def)
    from Suc.IH[OF p] nr show ?thesis
      unfolding k by simp
  qed
qed

lemma query_select_rows:
  assumes "query_select rc t s args = Some ((Some rows, err), calls, t')"
  shows "cursorCount rows = 0"
  using assms
  by (auto simp: query_select_def Let_def split: sum.splits option.splits prod.splits if_splits)

lemma query_select_cursor:
  assumes "query_select rc t s args = Some ((Some rows, err), calls, t')"
  shows "\<exists>params last.
           fetch_pages rc t (select_request s params) [] [] = Some (documents rows, last, calls, t')
           \<and> count rows = Count last"
proof -
  from assms obtain params where b: "bind_params (placeholders s) 0 args = Inr params"
    by (auto simp: query_select_def split: sum.splits)
  from assms b obtain docs last where
    f: "fetch_pages rc t (select_request s params) [] [] = Some (docs, last, calls, t')"
    by (auto simp: query_select_def Let_def split: option.splits prod.splits)
  from assms b f have "documents rows = docs \<and> count rows = Count last"
    by (auto simp: query_select_def Let_def split: if_splits)
  with f show ?thesis by blast
qed

lemma next_n_exhausted:
  "count r \<le> cursorCount r \<Longrightarrow> next_n n r dest = replicate n (Return (Some EOF))"
  by (induction n) (simp_all add: next_row_def)

text \<open>
  The part of claim C2 that holds: the cursor that \<open>Query\<close> returns never yields more rows
  than it holds documents, whatever \<open>Count\<close> values the transport reports.
\<close>

lemma cursor_rows_at_most_documents:
  assumes "query_select rc t s args = Some ((Some rows, err), calls, t')"
  shows "rows_yielded (next_n n rows dest) \<le> length (documents rows)"
  using next_n_bound[of n rows dest] query_select_rows[OF assms] by simp

text \<open>
  Claim C2: every sequence of \<open>Next\<close> calls on the cursor of a SELECT yields at most as many
  rows as documents were accumulated and then signals end-of-data, for any \<open>Count\<close> the
  transport reports. The code breaks the second half. \<open>Query\<close> takes the cursor's count from
  the \<open>Count\<close> of the last response, not from the documents it accumulated, and \<open>Next\<close>
  tests the position against that count before it indexes the documents. Here the
  transport answers with one page of two documents that reports \<open>Count = 3\<close>: the cursor
  yields two rows and the third call of \<open>Next\<close> reads \<^verbatim>\<open>r.documents[2]\<close>, a panic, where
  the claim has end-of-data.
\<close>

theorem cursor_count_overruns_documents:
  "query_select scripted (no_script\<lparr>on_query := [doc_page 2 [] 3]\<rparr>) (select_stmt ''SELECT * FROM c'') []
     = Some ((Some \<lparr>count = 3, documents = [[(''id'', Other ''x'')], [(''id'', Other ''x'')]],
                    cursorCount = 0, columnList = [''id'']\<rparr>, None),
             [CallQueryDocuments (select_request (select_stmt ''SELECT * FROM c'') [])], no_script)
   \<and> next_n (Suc (Suc (Suc 0)))
        \<lparr>count = 3, documents = [[(''id'', Other ''x'')], [(''id'', Other ''x'')]],
         cursorCount = 0, columnList = [''id'']\<rparr> [Nil]
     = [Return None, Return None, Panic]"
proof -
  have "fetch_pages scripted (no_script\<lparr>on_query := [doc_page 2 [] 3]\<rparr>)
          (select_request (select_stmt ''SELECT * FROM c'') []) [] []
        = Some ([[(''id'', Other ''x'')], [(''id'', Other ''x'')]], doc_page 2 [] 3,
                [CallQueryDocuments (select_request (select_stmt ''SELECT * FROM c'') [])], no_script)"
    by (subst fetch_pages.simps) (simp add: stub_defs doc_page_def numeral_2_eq_2)
  then have "query_select scripted (no_script\<lparr>on_query := [doc_page 2 [] 3]\<rparr>) (select_stmt ''SELECT * FROM c'') []
     = Some ((Some \<lparr>count = 3, documents = [[(''id'', Other ''x'')], [(''id'', Other ''x'')]],
                    cursorCount = 0, columnList = [''id'']\<rparr>, None),
             [CallQueryDocuments (select_request (select_stmt ''SELECT * FROM c'') [])], no_script)"
    by (simp add: query_select_def select_stmt_def doc_page_def map_error_def sort_strings_def)
  moreover have "next_n (Suc (Suc (Suc 0)))
        \<lparr>count = 3, documents = [[(''id'', Other ''x'')], [(''id'', Other ''x'')]],
         cursorCount = 0, columnList = [''id'']\<rparr> [Nil :: string iface]
     = [Return None, Return None, Panic]"
    by (simp add: next_row_def Let_def doc_get_def)
  ultimately show ?thesis by simp
qed

section \<open>SELECT: paging\<close>

lemma fetch_pages_run:
  assumes "page_responses rc t query (Suc (length ps)) = ps @ [pf]"
      and "\<forall>p \<in> set ps. ApiErr p = None \<and> ContinuationToken p \<noteq> []"
      and "ApiErr pf = None \<longrightarrow> ContinuationToken pf = []"
  shows "\<exists>t'. fetch_pages rc t query docs calls
           = Some (docs @ concat (map Documents ps) @ (if ApiErr pf = None then Documents pf else []),
                   pf, calls @ page_requests query ps, t')"
  using assms
proof (induction ps arbitrary: t query docs calls)
  case Nil
  obtain p t' where q: "QueryDocuments rc t query = (p, t')" by force
  with Nil.prems(1) have "p = pf" by simp
  with q Nil.prems(3) show ?case
    by (subst fetch_pages.simps) (simp add: page_requests_def)
next
  case (Cons p ps)
  obtain p' t1 where q: "QueryDocuments rc t query = (p', t1)" by force
  let ?q = "query\<lparr>qr_ContinuationToken := ContinuationToken p\<rparr>"
  from q Cons.prems(1) have p': "p' = p"
    by simp
  from q Cons.prems(1) have rest: "page_responses rc t1 ?q (Suc (length ps)) = ps @ [pf]"
    unfolding p' by simp
  from Cons.prems(2) have ok: "ApiErr p = None" "ContinuationToken p \<noteq> []"
     and oks: "\<forall>p \<in> set ps. ApiErr p = None \<and> ContinuationToken p \<noteq> []"
    by simp_all
  from Cons.IH[OF rest oks Cons.prems(3), of "docs @ Documents p" "calls @ [CallQueryDocuments query]"]
  obtain t' where "fetch_pages rc t1 ?q (docs @ Documents p) (calls @ [CallQueryDocuments query])
           = Some ((docs @ Documents p) @ concat (map Documents ps)
                     @ (if ApiErr pf = None then Documents pf else []), pf,
                   (calls @ [CallQueryDocuments query]) @ page_requests ?q ps, t')"
    by blast
  moreover have "page_requests query (p # ps) = CallQueryDocuments query # page_requests ?q ps"
    by (simp add: page_requests_def)
  ultimately have "fetch_pages rc t query docs calls
           = Some (docs @ concat (map Documents (p # ps))
                     @ (if ApiErr pf = None then Documents pf else []), pf,
                   calls @ page_requests query (p # ps), t')"
    using q p' ok by (subst fetch_pages.simps) simp
  then show ?case by blast
qed

lemma length_concat_pages:
  "\<forall>p \<in> set ps. length (Documents p) = N \<Longrightarrow> length (concat (map Documents ps)) = length ps * N"
  by (induction ps) simp_all

text \<open>
  What the paging loop does, for every transport. Let the transport answer the calls of the
  loop with the pages \<open>ps\<close>, each without error and with a nonempty continuation token, and
  then with a page \<open>pf\<close> that has an error or an empty token. Then \<open>Query\<close> returns, having
  issued one call for each of these pages, the first with an empty token and each later one
  with the token of the page before it; when \<open>pf\<close> has no error the cursor holds the
  documents of all the pages in order, and when \<open>pf\<close> has an error \<open>Query\<close> returns no cursor
  and an error.
\<close>

lemma query_follows_continuation:
  assumes "bind_params (placeholders s) 0 args = Inr params"
      and "page_responses rc t (select_request s params) (Suc (length ps)) = ps @ [pf]"
      and "\<forall>p \<in> set ps. ApiErr p = None \<and> ContinuationToken p \<noteq> []"
      and "ApiErr pf = None \<longrightarrow> ContinuationToken pf = []"
  shows "\<exists>rows err t'.
           query_select rc t s args
             = Some ((rows, err), page_requests (select_request s params) ps, t')
           \<and> length (page_requests (select_request s params) ps) = length ps + 1
           \<and> (ApiErr pf = None \<longrightarrow>
                (\<exists>r. rows = Some r
                   \<and> documents r = concat (map Documents (ps @ [pf]))
                   \<and> (length ps = 3 \<and> (\<forall>p \<in> set ps. length (Documents p) = N) \<and> Documents pf = []
                        \<longrightarrow> length (documents r) = 3 * N
                            \<and> length (page_requests (select_request s params) ps) = 4)))
           \<and> (ApiErr pf \<noteq> None \<longrightarrow> rows = None \<and> err \<noteq> None)"
proof -
  let ?q = "select_request s params"
  from fetch_pages_run[OF assms(2,3,4), of "[]" "[]"]
  obtain t' where f: "fetch_pages rc t ?q [] []
           = Some (concat (map Documents ps) @ (if ApiErr pf = None then Documents pf else []),
                   pf, page_requests ?q ps, t')"
    by auto
  have len: "length (page_requests ?q ps) = length ps + 1"
    by (simp add: page_requests_def)
  show ?thesis
  proof (cases "ApiErr pf")
    case None
    let ?docs = "concat (map Documents (ps @ [pf]))"
    let ?r = "\<lparr>count = Count pf, documents = ?docs, cursorCount = 0,
               columnList = (case ?docs of [] \<Rightarrow> [] | doc # _ \<Rightarrow> sort_strings (remdups (map fst doc)))\<rparr>"
    have run: "query_select rc t s args
             = Some ((Some ?r, map_error (StatusCode pf) None), page_requests ?q ps, t')"
      using assms(1) f None by (simp add: query_select_def)
    have "length ps = 3 \<and> (\<forall>p \<in> set ps. length (Documents p) = N) \<and> Documents pf = []
            \<longrightarrow> length (documents ?r) = 3 * N \<and> length (page_requests ?q ps) = 4"
      using length_concat_pages[of ps N] len by simp
    with run len None show ?thesis by simp
  next
    case (Some e)
    have "map_error (StatusCode pf) (Some (ErrTransport e)) \<noteq> None"
      by (simp add: map_error_def)
    moreover have "query_select rc t s args
             = Some ((None, map_error (StatusCode pf) (Some (ErrTransport e))), page_requests ?q ps, t')"
      using assms(1) f Some by (simp add: query_select_def)
    ultimately show ?thesis using len Some by simp
  qed
qed

text \<open>
  The cursor that \<open>Query\<close> returns after such a run, in full: its count is the \<open>Count\<close> of
  the last page alone.
\<close>

lemma query_select_pages:
  assumes "bind_params (placeholders s) 0 args = Inr params"
      and "page_responses rc t (select_request s params) (Suc (length ps)) = ps @ [pf]"
      and "\<forall>p \<in> set ps. ApiErr p = None \<and> ContinuationToken p \<noteq> []"
      and "ApiErr pf = None" and "ContinuationToken pf = []"
  shows "\<exists>t'. query_select rc t s args
           = Some ((Some \<lparr>count = Count pf, documents = concat (map Documents (ps @ [pf])),
                          cursorCount = 0,
                          columnList = (case concat (map Documents (ps @ [pf])) of
                                          [] \<Rightarrow> []
                                        | doc # _ \<Rightarrow> sort_strings (remdups (map fst doc)))\<rparr>,
                    map_error (StatusCode pf) None),
                   page_requests (select_request s params) ps, t')"
proof -
  have "ApiErr pf = None \<longrightarrow> ContinuationToken pf = []"
    using assms(5) by simp
  from fetch_pages_run[OF assms(2,3) this, of "[]" "[]"]
  obtain t' where "fetch_pages rc t (select_request s params) [] []
           = Some (concat (map Documents ps) @ Documents pf, pf,
                   page_requests (select_request s params) ps, t')"
    using assms(4) by auto
  with assms(1,4) show ?thesis
    by (simp add: query_select_def)
qed

text \<open>
  So when the last page is empty and reports the count 0, the cursor yields no row at all,
  however many documents the pages before it brought.
\<close>

lemma empty_last_page_yields_no_rows:
  assumes "bind_params (placeholders s) 0 args = Inr params"
      and "page_responses rc t (select_request s params) (Suc (length ps)) = ps @ [pf]"
      and "\<forall>p \<in> set ps. ApiErr p = None \<and> ContinuationToken p \<noteq> []"
      and "ApiErr pf = None" and "ContinuationToken pf = []" and "Count pf \<le> 0"
  shows "\<exists>rows err t'.
           query_select rc t s args
             = Some ((Some rows, err), page_requests (select_request s params) ps, t')
           \<and> documents rows = concat (map Documents (ps @ [pf]))
           \<and> (\<forall>n dest. next_n n rows dest = replicate n (Return (Some EOF)))
           \<and> (\<forall>n dest. rows_yielded (next_n n rows dest) = 0)"
proof -
  let ?docs = "concat (map Documents (ps @ [pf]))"
  let ?r = "\<lparr>count = Count pf, documents = ?docs, cursorCount = 0,
             columnList = (case ?docs of [] \<Rightarrow> [] | doc # _ \<Rightarrow> sort_strings (remdups (map fst doc)))\<rparr>"
  from query_select_pages[OF assms(1-5)] obtain t' where
    run: "query_select rc t s args
            = Some ((Some ?r, map_error (StatusCode pf) None),
                    page_requests (select_request s params) ps, t')"
    by blast
  have eof: "\<And>n dest. next_n n ?r dest = replicate n (Return (Some EOF))"
    using assms(6) by (intro next_n_exhausted) simp
  then have "\<And>n dest. rows_yielded (next_n n ?r dest) = 0"
    by (simp add: rows_yielded_def)
  with run eof show ?thesis by simp
qed

text \<open>
  Claim C5: against a transport that returns three pages of \<open>N\<close> documents with nonempty
  continuation tokens and then a page without documents and with an empty token, the
  SELECT returns exactly \<open>3 * N\<close> documents and issues exactly four query calls. The code
  issues the four calls and accumulates the \<open>3 * N\<close> documents, but it takes the count of
  the cursor it returns from the last response, which here reports no documents: the
  cursor's count is 0 and every call of \<open>Next\<close> signals end-of-data, so the caller gets no
  row. Here \<open>N = 2\<close>.
\<close>

theorem paged_cursor_yields_no_rows:
  "query_select scripted
       (no_script\<lparr>on_query := [doc_page 2 ''a'' 2, doc_page 2 ''b'' 2, doc_page 2 ''c'' 2,
                                doc_page 0 [] 0]\<rparr>)
       (select_stmt ''SELECT * FROM c'') []
     = Some ((Some \<lparr>count = 0,
                    documents = [[(''id'', Other ''x'')], [(''id'', Other ''x'')],
                                 [(''id'', Other ''x'')], [(''id'', Other ''x'')],
                                 [(''id'', Other ''x'')], [(''id'', Other ''x'')]],
                    cursorCount = 0, columnList = [''id'']\<rparr>, None),
             page_requests (select_request (select_stmt ''SELECT * FROM c'') [])
               [doc_page 2 ''a'' 2, doc_page 2 ''b'' 2, doc_page 2 ''c'' 2],
             no_script)
   \<and> length (page_requests (select_request (select_stmt ''SELECT * FROM c'') [])
               [doc_page 2 ''a'' 2, doc_page 2 ''b'' 2, doc_page 2 ''c'' 2]) = 4
   \<and> next_n (Suc (Suc (Suc 0)))
        \<lparr>count = 0,
         documents = [[(''id'', Other ''x'')], [(''id'', Other ''x'')],
                      [(''id'', Other ''x'')], [(''id'', Other ''x'')],
                      [(''id'', Other ''x'')], [(''id'', Other ''x'')]],
         cursorCount = 0, columnList = [''id'']\<rparr> [Nil]
     = [Return (Some EOF), Return (Some EOF), Return (Some EOF)]"
proof -
  let ?t = "no_script\<lparr>on_query := [doc_page 2 ''a'' 2, doc_page 2 ''b'' 2, doc_page 2 ''c'' 2,
                                     doc_page 0 [] 0]\<rparr>"
  let ?s = "select_stmt ''SELECT * FROM c''"
  let ?docs = "[[(''id'', Other ''x'')], [(''id'', Other ''x'')],
                [(''id'', Other ''x'')], [(''id'', Other ''x'')],
                [(''id'', Other ''x'')], [(''id'', Other ''x'')]] :: string DocInfo list"
  let ?rows = "\<lparr>count = 0, documents = ?docs, cursorCount = 0, columnList = [''id'']\<rparr>"
  have "fetch_pages scripted ?t (select_request ?s []) [] []
        = Some (?docs, doc_page 0 [] 0,
                page_requests (select_request ?s [])
                  [doc_page 2 ''a'' 2, doc_page 2 ''b'' 2, doc_page 2 ''c'' 2], no_script)"
    apply (subst fetch_pages.simps)
    apply (simp add: stub_defs doc_page_def numeral_2_eq_2 page_requests_def)
    apply (subst fetch_pages.simps)
    apply (simp add: stub_defs doc_page_def numeral_2_eq_2 page_requests_def)
    apply (subst fetch_pages.simps)
    apply (simp add: stub_defs doc_page_def numeral_2_eq_2 page_requests_def)
    apply (subst fetch_pages.simps)
    apply (simp add: stub_defs doc_page_def numeral_2_eq_2 page_requests_def)
    done
  then have run: "query_select scripted ?t ?s [] = Some ((Some ?rows, None),
             page_requests (select_request ?s [])
               [doc_page 2 ''a'' 2, doc_page 2 ''b'' 2, doc_page 2 ''c'' 2], no_script)"
    by (simp add: query_select_def select_stmt_def doc_page_def map_error_def sort_strings_def)
  have calls: "length (page_requests (select_request ?s ([] :: (string \<times> string iface) list))
               [doc_page 2 ''a'' 2, doc_page 2 ''b'' 2, doc_page 2 ''c'' 2]) = 4"
    by (simp add: page_requests_def)
  have eof: "next_n (Suc (Suc (Suc 0))) ?rows [Nil]
               = [Return (Some EOF), Return (Some EOF), Return (Some EOF)]"
    by (simp add: next_row_def)
  from run calls eof show ?thesis by simp
qed

section \<open>SELECT: binding the arguments\<close>

lemma bind_params_covers:
  "bind_params ph i args = Inr params \<Longrightarrow> {i + 1 .. i + int (length args)} \<subseteq> dom ph"
proof (induction args arbitrary: i params)
  case Nil
  then show ?case by simp
next
  case (Cons a args)
  from Cons.prems obtain v where v: "ph (i + 1) = Some v"
    by (auto split: option.splits)
  with Cons.prems obtain ps where "bind_params ph (i + 1) args = Inr ps"
    by (auto split: sum.splits)
  from Cons.IH[OF this] have "{i + 1 + 1 .. i + 1 + int (length args)} \<subseteq> dom ph" .
  moreover have "{i + 1 .. i + int (length (a # args))} = insert (i + 1) {i + 1 + 1 .. i + 1 + int (length args)}"
    by auto
  ultimately show ?case using v by auto
qed

lemma bind_params_error:
  "bind_params ph i args = Inl e \<Longrightarrow> \<exists>j. e = ErrNoPlaceholder j \<and> i < j \<and> j \<le> i + int (length args) \<and> ph j = None"
proof (induction args arbitrary: i)
  case Nil
  then show ?case by simp
next
  case (Cons a args)
  show ?case
  proof (cases "ph (i + 1)")
    case None
    with Cons.prems show ?thesis by auto
  next
    case (Some v)
    with Cons.prems have "bind_params ph (i + 1) args = Inl e"
      by (auto split: sum.splits)
    from Cons.IH[OF this] show ?thesis by auto
  qed
qed

lemma parse_select_placeholders:
  assumes "parse_select parseWithOpts withOptsStr s = Inr s'"
  shows "sel_numInput s' = int (length (placeholder_indices (selectQuery s)))
         \<and> dom (placeholders s') = set (placeholder_indices (selectQuery s))"
proof -
  from assms obtain opts where o: "parseWithOpts withOptsStr = Inr opts"
    by (auto simp: parse_select_def split: sum.splits)
  define s3 where "s3 = with_collection (with_database (s\<lparr>sel_withOpts := opts\<rparr>))"
  have q3: "selectQuery s3 = selectQuery s"
    by (simp add: s3_def with_collection_def with_database_def split: option.splits)
  from assms o obtain s4 where s4: "with_cross_partition s3 = Inr s4" and sc: "scan_placeholders s4 = Inr s'"
    by (auto simp: parse_select_def s3_def[symmetric] split: sum.splits)
  from s4 have q4: "selectQuery s4 = selectQuery s3"
    by (auto simp: with_cross_partition_def split: option.splits if_splits bool.splits)
  define ms where "ms = find_all_placeholders (selectQuery s)"
  from sc q3 q4 have "rewrite_placeholders ms (s4\<lparr>sel_numInput := int (length ms), placeholders := Map.empty\<rparr>) = Inr s'"
    by (simp add: scan_placeholders_def Let_def ms_def)
  from rewrite_placeholders_keeps[OF this] show ?thesis
    by (simp add: placeholder_indices_def ms_def)
qed

text \<open>
  Claim C10. When the query body of a parsed SELECT statement has two occurrences of the
  same placeholder index, \<open>Query\<close> called with as many arguments as the required input
  count returns the error about a missing placeholder number and issues no call to the
  transport: the input count is the number of occurrences, and there are fewer distinct
  indices than that.
\<close>

theorem repeated_index_fails_binding:
  assumes "parse_select parseWithOpts withOptsStr s = Inr s'"
      and "\<not> distinct (placeholder_indices (selectQuery s))"
      and "int (length args) = sel_numInput s'"
  shows "\<exists>i. query_select rc t s' args = Some ((None, Some (ErrNoPlaceholder i)), [], t)"
proof -
  let ?ixs = "placeholder_indices (selectQuery s)"
  from parse_select_placeholders[OF assms(1)] assms(3)
  have len: "length args = length ?ixs" and dom: "dom (placeholders s') = set ?ixs"
    by simp_all
  have small: "card (set ?ixs) < length ?ixs"
    using assms(2) card_distinct card_length le_neq_implies_less by blast
  have "\<exists>e. bind_params (placeholders s') 0 args = Inl e"
  proof (cases "bind_params (placeholders s') 0 args")
    case (Inl e)
    then show ?thesis by blast
  next
    case (Inr params)
    from bind_params_covers[OF this] have "{1 .. int (length args)} \<subseteq> set ?ixs"
      using dom by simp
    then have "card {1 .. int (length args)} \<le> card (set ?ixs)"
      by (intro card_mono) simp_all
    then have "length args \<le> card (set ?ixs)"
      by simp
    with small len show ?thesis by simp
  qed
  then obtain e where e: "bind_params (placeholders s') 0 args = Inl e" by blast
  from bind_params_error[OF e] obtain j where "e = ErrNoPlaceholder j" by blast
  with e show ?thesis by (auto simp: query_select_def)
qed

theorem repeated_index_fails_binding_witness:
  "parse_select (opts_parser Map.empty) [] (select_stmt ''SELECT * FROM c WHERE c.a=@1 OR c.b=@1'')
     = Inr ((select_stmt ''SELECT * FROM c WHERE c.a=@_1 OR c.b=@_1'')
              \<lparr>sel_numInput := 2, placeholders := [1 \<mapsto> ''@_1'']\<rparr>)
   \<and> placeholder_indices (selectQuery (select_stmt ''SELECT * FROM c WHERE c.a=@1 OR c.b=@1'')) = [1, 1]
   \<and> int (length [Other ''x'', Other ''y''])
       = sel_numInput ((select_stmt ''SELECT * FROM c WHERE c.a=@_1 OR c.b=@_1'')
                          \<lparr>sel_numInput := 2, placeholders := [1 \<mapsto> ''@_1'']\<rparr>)
   \<and> (\<exists>i. query_select scripted no_script
             ((select_stmt ''SELECT * FROM c WHERE c.a=@_1 OR c.b=@_1'')
                \<lparr>sel_numInput := 2, placeholders := [1 \<mapsto> ''@_1'']\<rparr>)
             [Other ''x'', Other ''y'']
           = Some ((None, Some (ErrNoPlaceholder i)), [], no_script))"
proof -
  let ?s = "select_stmt ''SELECT * FROM c WHERE c.a=@1 OR c.b=@1''"
  let ?s' = "(select_stmt ''SELECT * FROM c WHERE c.a=@_1 OR c.b=@_1'')
              \<lparr>sel_numInput := 2, placeholders := [1 \<mapsto> ''@_1'']\<rparr>"
  have ms: "find_all_placeholders ''SELECT * FROM c WHERE c.a=@1 OR c.b=@1''
              = [(''@1 '', ''1''), (''@1'', ''1'')]"
    by (simp add: char_defs)
  have at: "atoi ''1'' = (1, True)"
    by (simp add: atoi_digits_def is_digit_def digits_val_def digit_val_def max_int64_def)
  have h1: "parse_select (opts_parser Map.empty) [] ?s = Inr ?s'"
    by (simp add: parse_select_def opts_parser_def select_stmt_def with_database_def
          with_collection_def with_cross_partition_def scan_placeholders_def ms at has_suffix_def Let_def
          del: find_all_placeholders.simps atoi.simps)
  have ixs: "placeholder_indices (selectQuery ?s) = [1, 1]"
    by (simp add: placeholder_indices_def select_stmt_def ms at del: find_all_placeholders.simps atoi.simps)
  then have h2: "\<not> distinct (placeholder_indices (selectQuery ?s))"
    by simp
  have h3: "int (length [Other ''x'', Other ''y'' :: string iface]) = sel_numInput ?s'"
    by simp
  from repeated_index_fails_binding[OF h1 h2 h3, of scripted no_script]
  have "\<exists>i. query_select scripted no_script ?s' [Other ''x'', Other ''y'']
           = Some ((None, Some (ErrNoPlaceholder i)), [], no_script)" .
  with h1 ixs h3 show ?thesis by blast
qed

section \<open>INSERT: what a value token resolves to\<close>

lemma lex_one:
  assumes "trim_space tok = tok" and "tok \<noteq> []" and "lex_value lib tok = Inr (Data v, [])"
  shows "lex_values lib tok [] 1 = Inr ([Data v], 1)"
proof -
  have e: "trim_space [] = []"
    by code_simp
  have "lex_values lib tok [] 1 = lex_values lib [] [Data v] 1"
    using assms by (subst lex_values.simps) simp
  also have "\<dots> = Inr ([Data v], 1)"
    using e by (subst lex_values.simps) simp
  finally show ?thesis .
qed

lemma lex_value_quoted_123:
  assumes "Unquote lib (quoted ''123'') = Some ''123''" and "Unmarshal lib ''123'' = Some number"
  shows "lex_value lib (quoted ''123'') = Inr (Data number, [])"
proof -
  have "match_placeholder (quoted ''123'') = None" by code_simp
  moreover have "match_null (quoted ''123'') = None" by code_simp
  moreover have "match_number (quoted ''123'') = None" by code_simp
  moreover have "match_boolean (quoted ''123'') = None" by code_simp
  moreover have "match_string (quoted ''123'') = Some (quoted ''123'', [])" by code_simp
  moreover have "trim_value (quoted ''123'') = quoted ''123''" by code_simp
  ultimately show ?thesis
    using assms by (simp add: lex_value_def)
qed

lemma lex_value_bare_123:
  assumes "Unmarshal lib ''123'' = Some number"
  shows "lex_value lib ''123'' = Inr (Data number, [])"
proof -
  have "match_placeholder ''123'' = None" by code_simp
  moreover have "match_null ''123'' = None" by code_simp
  moreover have "match_number ''123'' = Some (''123'', [])" by code_simp
  moreover have "trim_value ''123'' = ''123''" by code_simp
  ultimately show ?thesis
    using assms by (simp add: lex_value_def del: match_placeholder.simps)
qed

lemma lex_value_quoted_string:
  assumes "Unquote lib (quoted (escaped_quoted ''123'')) = Some (quoted ''123'')"
      and "Unmarshal lib (quoted ''123'') = Some str"
  shows "lex_value lib (quoted (escaped_quoted ''123'')) = Inr (Data str, [])"
proof -
  let ?tok = "quoted (escaped_quoted ''123'')"
  have "match_placeholder ?tok = None" by code_simp
  moreover have "match_null ?tok = None" by code_simp
  moreover have "match_number ?tok = None" by code_simp
  moreover have "match_boolean ?tok = None" by code_simp
  moreover have "match_string ?tok = Some (?tok, [])" by code_simp
  moreover have "trim_value ?tok = ?tok" by code_simp
  ultimately show ?thesis
    using assms by (simp add: lex_value_def)
qed

text \<open>
  Claim C8. Given that \<^verbatim>\<open>strconv.Unquote\<close> turns the texts \<^verbatim>\<open>"123"\<close> and \<^verbatim>\<open>"\"123\""\<close> into
  \<^verbatim>\<open>123\<close> and \<^verbatim>\<open>"123"\<close>, and that \<^verbatim>\<open>json.Unmarshal\<close> reads \<^verbatim>\<open>123\<close> as a number and \<^verbatim>\<open>"123"\<close>
  as a string, \<open>parse\<close> resolves the value list \<^verbatim>\<open>"123"\<close> to that number, the bare \<^verbatim>\<open>123\<close> to
  the same number and \<^verbatim>\<open>"\"123\""\<close> to that string: the content of a double-quoted value is
  unquoted and then decoded as JSON. None of them is a placeholder, so the input count
  stays 1.
\<close>

theorem quoted_value_is_json:
  assumes "Unquote lib (quoted ''123'') = Some ''123''"
      and "Unquote lib (quoted (escaped_quoted ''123'')) = Some (quoted ''123'')"
      and "Unmarshal lib ''123'' = Some number"
      and "Unmarshal lib (quoted ''123'') = Some str"
  shows "parse_insert lib (s\<lparr>valuesStr := quoted ''123''\<rparr>)
           = Inr (s\<lparr>valuesStr := quoted ''123'', ins_fields := split_fields (fieldsStr s),
                    ins_values := [Data number], ins_numInput := 1\<rparr>)
       \<and> parse_insert lib (s\<lparr>valuesStr := ''123''\<rparr>)
           = Inr (s\<lparr>valuesStr := ''123'', ins_fields := split_fields (fieldsStr s),
                    ins_values := [Data number], ins_numInput := 1\<rparr>)
       \<and> parse_insert lib (s\<lparr>valuesStr := quoted (escaped_quoted ''123'')\<rparr>)
           = Inr (s\<lparr>valuesStr := quoted (escaped_quoted ''123''),
                    ins_fields := split_fields (fieldsStr s),
                    ins_values := [Data str], ins_numInput := 1\<rparr>)"
proof -
  have t1: "trim_space (quoted ''123'') = quoted ''123'' \<and> quoted ''123'' \<noteq> []" by code_simp
  have t2: "trim_space ''123'' = ''123'' \<and> ''123'' \<noteq> []" by code_simp
  have t3: "trim_space (quoted (escaped_quoted ''123'')) = quoted (escaped_quoted ''123'')
            \<and> quoted (escaped_quoted ''123'') \<noteq> []" by code_simp
  have "lex_values lib (quoted ''123'') [] 1 = Inr ([Data number], 1)"
    using t1 lex_value_quoted_123[OF assms(1,3)] by (intro lex_one) simp_all
  moreover have "lex_values lib ''123'' [] 1 = Inr ([Data number], 1)"
    using t2 lex_value_bare_123[OF assms(3)] by (intro lex_one) simp_all
  moreover have "lex_values lib (quoted (escaped_quoted ''123'')) [] 1 = Inr ([Data str], 1)"
    using t3 lex_value_quoted_string[OF assms(2,4)] by (intro lex_one) simp_all
  ultimately show ?thesis
    by (simp add: parse_insert_def)
qed

theorem quoted_value_is_json_witness:
  "Unquote json_lib (quoted ''123'') = Some ''123''
   \<and> Unquote json_lib (quoted (escaped_quoted ''123'')) = Some (quoted ''123'')
   \<and> Unmarshal json_lib ''123'' = Some (Other (JNumber 123))
   \<and> Unmarshal json_lib (quoted ''123'') = Some (Other (JString ''123''))
   \<and> parse_insert json_lib (insert_stmt (quoted ''123''))
       = Inr ((insert_stmt (quoted ''123''))
                \<lparr>ins_fields := [''a''], ins_values := [Data (Other (JNumber 123))], ins_numInput := 1\<rparr>)
   \<and> parse_insert json_lib (insert_stmt ''123'')
       = Inr ((insert_stmt ''123'')
                \<lparr>ins_fields := [''a''], ins_values := [Data (Other (JNumber 123))], ins_numInput := 1\<rparr>)
   \<and> parse_insert json_lib (insert_stmt (quoted (escaped_quoted ''123'')))
       = Inr ((insert_stmt (quoted (escaped_quoted ''123'')))
                \<lparr>ins_fields := [''a''], ins_values := [Data (Other (JString ''123''))],
                 ins_numInput := 1\<rparr>)"
proof -
  have h1: "Unquote json_lib (quoted ''123'') = Some ''123''"
    by code_simp
  have h2: "Unquote json_lib (quoted (escaped_quoted ''123'')) = Some (quoted ''123'')"
    by code_simp
  have h3: "Unmarshal json_lib ''123'' = Some (Other (JNumber 123))"
    by code_simp
  have h4: "Unmarshal json_lib (quoted ''123'') = Some (Other (JString ''123''))"
    by code_simp
  have f: "split_fields ''a'' = [''a'']"
    by code_simp
  have s: "\<And>vals. (insert_stmt ''x'')\<lparr>valuesStr := vals\<rparr> = insert_stmt vals"
    by (simp add: insert_stmt_def)
  have fs: "\<And>vals. fieldsStr (insert_stmt vals) = ''a''"
    by (simp add: insert_stmt_def)
  from quoted_value_is_json[OF h1 h2 h3 h4, of "insert_stmt ''x''"] h1 h2 h3 h4
  show ?thesis
    by (simp add: s fs f insert_stmt_def)
qed

section \<open>SELECT: what the rewriting of the placeholders leaves\<close>

lemma has_prefix_append: "has_prefix s p \<longleftrightarrow> (\<exists>r. s = p @ r)"
  by (induction s p rule: has_prefix.induct) auto

lemma not_sigil_class:
  "is_digit c \<Longrightarrow> \<not> is_sigil c" "is_re_space c \<Longrightarrow> \<not> is_sigil c" "is_comma c \<Longrightarrow> \<not> is_sigil c"
  by (auto simp: is_digit_def is_sigil_def is_re_space_def is_comma_def)

lemma span_append:
  assumes "\<forall>x \<in> set a. P x" and "\<not> starts_with P b"
  shows "takeWhile P (a @ b) = a" and "dropWhile P (a @ b) = b"
  using assms by (cases b; simp add: takeWhile_append2 dropWhile_append2)+

lemma starts_dropWhile: "\<not> starts_with P (dropWhile P xs)"
  by (induction xs) auto

lemma match_sep_decompose:
  assumes "match_sep r = (sep, r')"
  shows "r = sep @ r'" and "\<forall>x \<in> set sep. \<not> is_sigil x"
    and "\<exists>ws cm. sep = ws @ cm \<and> (\<forall>x \<in> set ws. is_re_space x) \<and> (cm = [] \<or> cm = '','')
           \<and> \<not> starts_with is_re_space (cm @ r') \<and> (cm = [] \<longrightarrow> \<not> starts_with is_comma r')"
proof -
  let ?ws = "takeWhile is_re_space r" and ?r2 = "dropWhile is_re_space r"
  have id: "r = ?ws @ ?r2" by simp
  have ws: "\<forall>x \<in> set ?ws. is_re_space x" by (meson set_takeWhileD)
  have ns: "\<not> starts_with is_re_space ?r2" by (rule starts_dropWhile)
  have wns: "\<forall>x \<in> set ?ws. \<not> is_sigil x" using ws not_sigil_class(2) by blast
  have cns: "\<not> is_sigil CHR '',''" by (simp add: is_sigil_def)
  show "r = sep @ r'" "\<forall>x \<in> set sep. \<not> is_sigil x"
    "\<exists>ws cm. sep = ws @ cm \<and> (\<forall>x \<in> set ws. is_re_space x) \<and> (cm = [] \<or> cm = '','')
           \<and> \<not> starts_with is_re_space (cm @ r') \<and> (cm = [] \<longrightarrow> \<not> starts_with is_comma r')"
  proof (atomize (full), cases "starts_with is_comma ?r2")
    case True
    then obtain tl2 where r2: "?r2 = CHR '','' # tl2"
      by (cases ?r2) (auto simp: is_comma_def)
    with assms True have s: "sep = ?ws @ '',''" "r' = tl2"
      by (auto simp: match_sep_def Let_def)
    have "r = sep @ r'" using id r2 s by simp
    moreover have "\<forall>x \<in> set sep. \<not> is_sigil x"
      using s wns cns by simp
    moreover have "sep = ?ws @ '','' \<and> (\<forall>x \<in> set ?ws. is_re_space x) \<and> ('','' = [] \<or> '','' = '','')
           \<and> \<not> starts_with is_re_space ('','' @ r') \<and> ('','' = [] \<longrightarrow> \<not> starts_with is_comma r')"
      using s ws by (simp add: is_re_space_def)
    ultimately show "r = sep @ r' \<and> (\<forall>x \<in> set sep. \<not> is_sigil x) \<and>
      (\<exists>ws cm. sep = ws @ cm \<and> (\<forall>x \<in> set ws. is_re_space x) \<and> (cm = [] \<or> cm = '','')
           \<and> \<not> starts_with is_re_space (cm @ r') \<and> (cm = [] \<longrightarrow> \<not> starts_with is_comma r'))"
      by blast
  next
    case False
    with assms have s: "sep = ?ws" "r' = ?r2"
      by (auto simp: match_sep_def Let_def)
    have "r = sep @ r'" using id s by simp
    moreover have "\<forall>x \<in> set sep. \<not> is_sigil x"
      using s wns by simp
    moreover have "sep = ?ws @ [] \<and> (\<forall>x \<in> set ?ws. is_re_space x) \<and> ([] = [] \<or> [] = '','')
           \<and> \<not> starts_with is_re_space ([] @ r') \<and> ([] = [] \<longrightarrow> \<not> starts_with is_comma r')"
      using s ws ns False by simp
    ultimately show "r = sep @ r' \<and> (\<forall>x \<in> set sep. \<not> is_sigil x) \<and>
      (\<exists>ws cm. sep = ws @ cm \<and> (\<forall>x \<in> set ws. is_re_space x) \<and> (cm = [] \<or> cm = '','')
           \<and> \<not> starts_with is_re_space (cm @ r') \<and> (cm = [] \<longrightarrow> \<not> starts_with is_comma r'))"
      by blast
  qed
qed


lemma match_sep_stable:
  assumes m: "match_sep r1 = (sep, r)"
      and sp: "starts_with is_re_space r' \<longrightarrow> starts_with is_re_space r"
      and cm: "starts_with is_comma r' \<longrightarrow> starts_with is_comma r"
  shows "match_sep (sep @ r') = (sep, r')"
proof -
  from match_sep_decompose(3)[OF m] obtain ws c where
    sep: "sep = ws @ c" and ws: "\<forall>x \<in> set ws. is_re_space x" and c: "c = [] \<or> c = '',''"
    and n1: "\<not> starts_with is_re_space (c @ r)" and n2: "c = [] \<longrightarrow> \<not> starts_with is_comma r"
    by blast
  have n1': "\<not> starts_with is_re_space (c @ r')"
    using c n1 sp by (auto simp: is_re_space_def)
  have tw: "takeWhile is_re_space (ws @ (c @ r')) = ws" and dw: "dropWhile is_re_space (ws @ (c @ r')) = c @ r'"
    using span_append[OF ws n1'] by simp_all
  show ?thesis
  proof (cases "c = []")
    case True
    with n2 cm have "\<not> starts_with is_comma r'" by blast
    with True tw dw sep show ?thesis by (simp add: match_sep_def)
  next
    case False
    with c have "c = '',''" by simp
    with tw dw sep show ?thesis by (simp add: match_sep_def is_comma_def)
  qed
qed

lemma match_placeholder_decompose:
  assumes "match_placeholder q = Some (t, ds, r)"
  shows "q = t @ r" and "sigil_headed t" and "\<forall>x \<in> set ds. \<not> is_sigil x"
proof -
  from assms obtain c cs where q: "q = c # cs" by (cases q) auto
  from assms q have c: "is_sigil c" and d: "starts_with is_digit cs"
    by (auto split: if_splits)
  obtain sep r0 where sep0: "match_sep (dropWhile is_digit cs) = (sep, r0)"
    by (cases "match_sep (dropWhile is_digit cs)")
  with assms q c d have t: "t = c # takeWhile is_digit cs @ sep" and ds: "ds = takeWhile is_digit cs"
    and r0: "r0 = r"
    by auto
  from sep0 r0 have sep: "match_sep (dropWhile is_digit cs) = (sep, r)" by simp
  have dd: "\<forall>x \<in> set ds. \<not> is_sigil x"
    unfolding ds using not_sigil_class(1) by (meson set_takeWhileD)
  have "cs = takeWhile is_digit cs @ dropWhile is_digit cs" by simp
  also have "\<dots> = takeWhile is_digit cs @ sep @ r"
    using match_sep_decompose(1)[OF sep] by simp
  finally show "q = t @ r" using q t by simp
  show "sigil_headed t"
    using t c dd ds match_sep_decompose(2)[OF sep] by (auto simp: sigil_headed_def)
  show "\<forall>x \<in> set ds. \<not> is_sigil x" by (rule dd)
qed

lemma space_not_digit: "is_re_space x \<Longrightarrow> \<not> is_digit x"
  by (auto simp: is_re_space_def is_digit_def)

lemma match_placeholder_stable:
  assumes m: "match_placeholder q = Some (t, ds, r)"
      and dg: "starts_with is_digit r' \<longrightarrow> starts_with is_digit r"
      and sp: "starts_with is_re_space r' \<longrightarrow> starts_with is_re_space r"
      and cm: "starts_with is_comma r' \<longrightarrow> starts_with is_comma r"
  shows "match_placeholder (t @ r') = Some (t, ds, r')"
proof -
  from m obtain c cs where q: "q = c # cs" by (cases q) auto
  from m q have c: "is_sigil c" and d: "starts_with is_digit cs"
    by (auto split: if_splits)
  obtain sep r0 where sep0: "match_sep (dropWhile is_digit cs) = (sep, r0)"
    by (cases "match_sep (dropWhile is_digit cs)")
  with m q c d have t: "t = c # takeWhile is_digit cs @ sep" and ds: "ds = takeWhile is_digit cs"
    and r0: "r0 = r"
    by auto
  from sep0 r0 have sep: "match_sep (dropWhile is_digit cs) = (sep, r)" by simp
  from d have ne: "ds \<noteq> []" unfolding ds by (cases cs) auto
  have all: "\<forall>x \<in> set ds. is_digit x" unfolding ds by (meson set_takeWhileD)
  have r1: "dropWhile is_digit cs = sep @ r" using match_sep_decompose(1)[OF sep] .
  have nd: "\<not> starts_with is_digit (sep @ r)"
    using starts_dropWhile[of is_digit cs] r1 by simp
  from match_sep_decompose(3)[OF sep] obtain ws k where
    k: "sep = ws @ k" "\<forall>x \<in> set ws. is_re_space x" "k = [] \<or> k = '',''"
    by blast
  have nd': "\<not> starts_with is_digit (sep @ r')"
  proof (cases sep)
    case Nil
    with nd dg show ?thesis by simp
  next
    case (Cons x xs)
    with k have "is_re_space x \<or> x = CHR '',''" by (cases ws) auto
    moreover have "\<not> is_digit CHR '',''" by (simp add: is_digit_def)
    ultimately have "\<not> is_digit x" using space_not_digit by blast
    with Cons show ?thesis by simp
  qed
  have tw: "takeWhile is_digit (ds @ (sep @ r')) = ds" and dw: "dropWhile is_digit (ds @ (sep @ r')) = sep @ r'"
    using span_append[OF all nd'] by simp_all
  have st: "starts_with is_digit (ds @ sep @ r')"
    using ne all by (cases ds) auto
  have "match_sep (sep @ r') = (sep, r')"
    using match_sep_stable[OF sep sp cm] .
  with tw dw st c show ?thesis
    unfolding t ds[symmetric] by simp
qed

lemma find_all_skip: "\<not> is_sigil c \<Longrightarrow> find_all_placeholders (c # y) = find_all_placeholders y"
  by simp

lemma find_all_skip_many:
  "\<forall>x \<in> set b. \<not> is_sigil x \<Longrightarrow> find_all_placeholders (b @ y) = find_all_placeholders y"
  by (induction b) simp_all

lemma match_texts_tl: "set (match_texts cs) \<subseteq> set (match_texts (c # cs))"
proof (cases "match_placeholder (c # cs)")
  case None
  then show ?thesis by (simp add: match_texts_def)
next
  case (Some a)
  obtain t ds r where a: "a = (t, ds, r)" by (cases a)
  from match_placeholder_decompose[OF Some[unfolded a]]
  have q: "c # cs = t @ r" and h: "sigil_headed t" by simp_all
  from h obtain b where t: "t = c # b" and b: "\<forall>x \<in> set b. \<not> is_sigil x"
    using q by (cases t) (auto simp: sigil_headed_def)
  from q t have "cs = b @ r" by simp
  then have "find_all_placeholders cs = find_all_placeholders r"
    using find_all_skip_many[OF b] by simp
  with Some a show ?thesis by (auto simp: match_texts_def)
qed

lemma match_texts_drop: "set (match_texts (drop n q)) \<subseteq> set (match_texts q)"
proof (induction n arbitrary: q)
  case 0
  show ?case by simp
next
  case (Suc n)
  show ?case
  proof (cases q)
    case Nil
    then show ?thesis by simp
  next
    case (Cons c cs)
    with Suc[of cs] match_texts_tl[of cs c] show ?thesis by auto
  qed
qed


lemma find_all_match:
  "match_placeholder q = Some (t, ds, r) \<Longrightarrow> find_all_placeholders q = (t, ds) # find_all_placeholders r"
  by (cases q) simp_all

lemma find_all_nomatch:
  "match_placeholder (c # cs) = None \<Longrightarrow> find_all_placeholders (c # cs) = find_all_placeholders cs"
  by simp

lemma match_placeholder_None:
  "match_placeholder (c # cs) = None \<longleftrightarrow> \<not> (is_sigil c \<and> starts_with is_digit cs)"
  by (simp split: prod.splits)

lemma sigil_headed_prefix:
  assumes "sigil_headed m" and "has_prefix (x # ys) m"
  shows "is_sigil x"
  using assms by (cases m) (auto simp: sigil_headed_def)

lemma replace_all_copy:
  assumes "sigil_headed m" and "\<forall>x \<in> set b. \<not> is_sigil x"
  shows "replace_all (b @ y) m key = b @ replace_all y m key"
  using assms(2)
proof (induction b)
  case Nil
  show ?case by simp
next
  case (Cons x b)
  from assms(1) have ne: "m \<noteq> []" by (auto simp: sigil_headed_def)
  from Cons.prems have "\<not> is_sigil x" by simp
  with sigil_headed_prefix[OF assms(1)] have "\<not> has_prefix (x # (b @ y)) m" by blast
  with ne Cons show ?case by simp
qed

lemma replace_all_class:
  assumes "sigil_headed m" and "\<not> P CHR ''@''" and "\<And>c. P c \<Longrightarrow> \<not> is_sigil c"
  shows "starts_with P (replace_all r m (CHR ''@'' # k)) \<longrightarrow> starts_with P r"
proof (cases r)
  case Nil
  from assms(1) have "m \<noteq> []" by (auto simp: sigil_headed_def)
  with Nil show ?thesis by simp
next
  case (Cons x xs)
  from assms(1) have ne: "m \<noteq> []" by (auto simp: sigil_headed_def)
  show ?thesis
  proof (cases "has_prefix (x # xs) m")
    case True
    with ne Cons assms(2) show ?thesis by simp
  next
    case False
    with ne Cons show ?thesis by simp
  qed
qed

lemma class_facts:
  "\<not> is_digit CHR ''@''" "\<not> is_re_space CHR ''@''" "\<not> is_comma CHR ''@''"
  "\<not> is_sigil CHR ''_''" "\<not> is_digit CHR ''_''" "\<not> is_sigil CHR '' ''"
  by (simp_all add: is_digit_def is_re_space_def is_comma_def is_sigil_def)

lemma replace_all_first:
  assumes "sigil_headed m"
  shows "starts_with is_digit (replace_all r m (CHR ''@'' # k)) \<longrightarrow> starts_with is_digit r"
    and "starts_with is_re_space (replace_all r m (CHR ''@'' # k)) \<longrightarrow> starts_with is_re_space r"
    and "starts_with is_comma (replace_all r m (CHR ''@'' # k)) \<longrightarrow> starts_with is_comma r"
  using replace_all_class[where P = is_digit, OF assms class_facts(1) not_sigil_class(1)]
        replace_all_class[where P = is_re_space, OF assms class_facts(2) not_sigil_class(2)]
        replace_all_class[where P = is_comma, OF assms class_facts(3) not_sigil_class(3)]
  by blast+

lemma replace_all_removes:
  assumes m: "sigil_headed m" and k: "\<forall>x \<in> set k. \<not> is_sigil x"
  shows "set (match_texts (replace_all q m (CHR ''@'' # CHR ''_'' # k))) \<subseteq> set (match_texts q) - {m}"
proof (induction q rule: length_induct)
  case (1 q)
  let ?key = "CHR ''@'' # CHR ''_'' # k"
  from m have ne: "m \<noteq> []" by (auto simp: sigil_headed_def)
  show ?case
  proof (cases q)
    case Nil
    with ne show ?thesis by (simp add: match_texts_def)
  next
    case (Cons c cs)
    show ?thesis
    proof (cases "has_prefix q m")
      case True
      let ?rest = "drop (length m) q"
      have r: "replace_all q m ?key = ?key @ replace_all ?rest m ?key"
        using True ne Cons by simp
      have "length ?rest < length q" using ne Cons by simp
      with 1 have ih: "set (match_texts (replace_all ?rest m ?key)) \<subseteq> set (match_texts ?rest) - {m}"
        by blast
      have "find_all_placeholders (?key @ replace_all ?rest m ?key)
              = find_all_placeholders ((CHR ''_'' # k) @ replace_all ?rest m ?key)"
        by (simp add: class_facts)
      also have "\<dots> = find_all_placeholders (replace_all ?rest m ?key)"
        by (rule find_all_skip_many) (simp add: k class_facts)
      finally have "match_texts (replace_all q m ?key) = match_texts (replace_all ?rest m ?key)"
        unfolding r match_texts_def by simp
      with ih match_texts_drop[of "length m" q] show ?thesis by auto
    next
      case False
      with ne Cons have r: "replace_all q m ?key = c # replace_all cs m ?key" by simp
      show ?thesis
      proof (cases "match_placeholder q")
        case None
        with Cons have none: "match_placeholder (c # cs) = None" by simp
        then have "\<not> (is_sigil c \<and> starts_with is_digit cs)"
          by (rule iffD1[OF match_placeholder_None])
        then have "\<not> (is_sigil c \<and> starts_with is_digit (replace_all cs m ?key))"
          using replace_all_first(1)[OF m, of cs "CHR ''_'' # k"] by blast
        then have "match_placeholder (c # replace_all cs m ?key) = None"
          by (rule iffD2[OF match_placeholder_None])
        then have "match_texts (replace_all q m ?key) = match_texts (replace_all cs m ?key)"
          unfolding r match_texts_def using find_all_nomatch by presburger
        moreover have "match_texts q = match_texts cs"
          unfolding Cons match_texts_def using find_all_nomatch[OF none] by presburger
        moreover have "set (match_texts (replace_all cs m ?key)) \<subseteq> set (match_texts cs) - {m}"
          using 1 Cons by simp
        ultimately show ?thesis by simp
      next
        case (Some a)
        obtain t ds rr where a: "a = (t, ds, rr)" by (cases a)
        note mt = Some[unfolded a]
        from match_placeholder_decompose[OF mt] have q: "q = t @ rr" and h: "sigil_headed t" by simp_all
        from h q Cons obtain b where t: "t = c # b" and b: "\<forall>x \<in> set b. \<not> is_sigil x"
          by (cases t) (auto simp: sigil_headed_def)
        from q t Cons have cs: "cs = b @ rr" by simp
        have r': "replace_all q m ?key = t @ replace_all rr m ?key"
          unfolding r cs t using replace_all_copy[OF m b] by simp
        have st: "match_placeholder (t @ replace_all rr m ?key) = Some (t, ds, replace_all rr m ?key)"
          by (rule match_placeholder_stable[OF mt replace_all_first[OF m]])
        have new: "match_texts (replace_all q m ?key) = t # match_texts (replace_all rr m ?key)"
          unfolding r' match_texts_def using find_all_match[OF st] by simp
        have old: "match_texts q = t # match_texts rr"
          unfolding match_texts_def using find_all_match[OF mt] by simp
        have "length rr < length q" using match_placeholder_length[OF mt] .
        with 1 have ih: "set (match_texts (replace_all rr m ?key)) \<subseteq> set (match_texts rr) - {m}"
          by blast
        have "has_prefix q t" using q by (simp add: has_prefix_append)
        with False have "t \<noteq> m" by blast
        with new old ih show ?thesis by auto
      qed
    qed
  qed
qed


lemma find_all_shapes:
  "m \<in> set (find_all_placeholders q) \<Longrightarrow> sigil_headed (fst m) \<and> (\<forall>x \<in> set (snd m). \<not> is_sigil x)"
proof (induction q rule: length_induct)
  case (1 q)
  show ?case
  proof (cases q)
    case Nil
    with 1(2) show ?thesis by simp
  next
    case (Cons c cs)
    show ?thesis
    proof (cases "match_placeholder (c # cs)")
      case None
      from 1(2) have "m \<in> set (find_all_placeholders cs)"
        unfolding Cons find_all_nomatch[OF None] .
      moreover have "length cs < length q" using Cons by simp
      ultimately show ?thesis using 1(1) by blast
    next
      case (Some a)
      obtain t ds r where a: "a = (t, ds, r)" by (cases a)
      note mt = Some[unfolded a]
      from 1(2) have "m \<in> set ((t, ds) # find_all_placeholders r)"
        unfolding Cons find_all_match[OF mt] .
      then have "m = (t, ds) \<or> m \<in> set (find_all_placeholders r)" by simp
      then show ?thesis
      proof
        assume "m = (t, ds)"
        with match_placeholder_decompose(2,3)[OF mt] show ?thesis by simp
      next
        assume "m \<in> set (find_all_placeholders r)"
        moreover have "length r < length q"
          using match_placeholder_length[OF mt] Cons by simp
        ultimately show ?thesis using 1(1) by blast
      qed
    qed
  qed
qed

lemma rewrite_placeholders_clears:
  assumes "rewrite_placeholders ms s = Inr s'"
      and "\<forall>m \<in> set ms. sigil_headed (fst m) \<and> (\<forall>x \<in> set (snd m). \<not> is_sigil x)"
      and "set (match_texts (selectQuery s)) \<subseteq> fst ` set ms"
  shows "match_texts (selectQuery s') = []"
  using assms
proof (induction ms arbitrary: s)
  case Nil
  then show ?case by simp
next
  case (Cons m ms)
  obtain m0 m1 where m: "m = (m0, m1)" by (cases m)
  obtain v ok where a: "atoi m1 = (v, ok)" by (cases "atoi m1")
  from Cons.prems(1) m a have ok: "ok" by (cases ok) auto
  from Cons.prems(2) m have h: "sigil_headed m0" and d: "\<forall>x \<in> set m1. \<not> is_sigil x"
    by simp_all
  define k where "k = (if has_suffix m0 '' '' then m1 @ '' '' else m1)"
  have k: "\<forall>x \<in> set k. \<not> is_sigil x"
    using d by (simp add: k_def class_facts)
  have key: "(if has_suffix m0 '' '' then (''@_'' @ m1) @ '' '' else ''@_'' @ m1) = CHR ''@'' # CHR ''_'' # k"
    by (simp add: k_def)
  define s2 where "s2 = s\<lparr>placeholders := (placeholders s)(v \<mapsto> ''@_'' @ m1),
                          selectQuery := replace_all (selectQuery s) m0 (CHR ''@'' # CHR ''_'' # k)\<rparr>"
  from Cons.prems(1) m a ok have run: "rewrite_placeholders ms s2 = Inr s'"
    by (simp add: Let_def s2_def key[symmetric] del: append.simps)
  have "set (match_texts (selectQuery s2)) \<subseteq> set (match_texts (selectQuery s)) - {m0}"
    using replace_all_removes[OF h k] by (simp add: s2_def)
  with Cons.prems(3) m have sub: "set (match_texts (selectQuery s2)) \<subseteq> fst ` set ms"
    by auto
  from Cons.prems(2) have "\<forall>m \<in> set ms. sigil_headed (fst m) \<and> (\<forall>x \<in> set (snd m). \<not> is_sigil x)"
    by simp
  from Cons.IH[OF run this sub] show ?case .
qed

lemma parse_select_clears:
  assumes "parse_select parseWithOpts withOptsStr s = Inr s'"
  shows "find_all_placeholders (selectQuery s') = []"
proof -
  from assms obtain opts where o: "parseWithOpts withOptsStr = Inr opts"
    by (auto simp: parse_select_def split: sum.splits)
  define s3 where "s3 = with_collection (with_database (s\<lparr>sel_withOpts := opts\<rparr>))"
  from assms o obtain s4 where s4: "with_cross_partition s3 = Inr s4" and sc: "scan_placeholders s4 = Inr s'"
    by (auto simp: parse_select_def s3_def[symmetric] split: sum.splits)
  define ms where "ms = find_all_placeholders (selectQuery s4)"
  define start where "start = s4\<lparr>sel_numInput := int (length ms), placeholders := Map.empty\<rparr>"
  from sc have run: "rewrite_placeholders ms start = Inr s'"
    by (simp add: scan_placeholders_def Let_def ms_def start_def)
  have shapes: "\<forall>m \<in> set ms. sigil_headed (fst m) \<and> (\<forall>x \<in> set (snd m). \<not> is_sigil x)"
    unfolding ms_def using find_all_shapes by blast
  have sub: "set (match_texts (selectQuery start)) \<subseteq> fst ` set ms"
    by (simp add: start_def ms_def match_texts_def)
  from rewrite_placeholders_clears[OF run shapes sub] show ?thesis
    by (simp add: match_texts_def)
qed

text \<open>
  Claim C6. Two parts of the claim hold for every statement that \<open>parse\<close> accepts: the
  rewritten query has no match of the placeholder pattern left (\<open>parse_select_clears\<close>
  above), and the input count is the number of occurrences
  (\<open>parse_select_placeholders\<close>). The part about \<^verbatim>\<open>@_<n>\<close> does not: a match of the
  pattern includes the white space and the comma after the digits, and all of it is replaced
  by the parameter name, with one space only when the match ended in a space. In
  \<^verbatim>\<open>IN (@1,2)\<close> the match is \<^verbatim>\<open>@1,\<close>; the rewritten query reads \<^verbatim>\<open>IN (@_12)\<close>, which refers
  to a parameter 12 and to no parameter 1, while the statement binds its argument to the
  name \<^verbatim>\<open>@_1\<close>.
\<close>

theorem comma_after_placeholder_glues_digits:
  "find_all_placeholders ''SELECT * FROM c WHERE c.n IN (@1,2)'' = [(''@1,'', ''1'')]
   \<and> parse_select (opts_parser Map.empty) [] (select_stmt ''SELECT * FROM c WHERE c.n IN (@1,2)'')
     = Inr ((select_stmt ''SELECT * FROM c WHERE c.n IN (@_12)'')
              \<lparr>sel_numInput := 1, placeholders := [1 \<mapsto> ''@_1'']\<rparr>)
   \<and> named_params ''SELECT * FROM c WHERE c.n IN (@_12)'' = [''12'']"
proof -
  have ms: "find_all_placeholders ''SELECT * FROM c WHERE c.n IN (@1,2)'' = [(''@1,'', ''1'')]"
    by code_simp
  have at: "atoi ''1'' = (1, True)"
    by code_simp
  have rp: "replace_all ''SELECT * FROM c WHERE c.n IN (@1,2)'' ''@1,'' ''@_1''
              = ''SELECT * FROM c WHERE c.n IN (@_12)''"
    by code_simp
  have sf: "\<not> has_suffix ''@1,'' '' ''"
    by code_simp
  have np: "named_params ''SELECT * FROM c WHERE c.n IN (@_12)'' = [''12'']"
    by code_simp
  have "parse_select (opts_parser Map.empty) [] (select_stmt ''SELECT * FROM c WHERE c.n IN (@1,2)'')
     = Inr ((select_stmt ''SELECT * FROM c WHERE c.n IN (@_12)'')
              \<lparr>sel_numInput := 1, placeholders := [1 \<mapsto> ''@_1'']\<rparr>)"
    by (simp add: parse_select_def opts_parser_def select_stmt_def with_database_def
          with_collection_def with_cross_partition_def scan_placeholders_def ms at rp sf Let_def
          del: find_all_placeholders.simps atoi.simps replace_all.simps)
  with ms np show ?thesis by simp
qed

end
